theory Spec2Isabelle
  imports Main "HOL-Library.Word" "HOL-Library.AList"
begin

unbundle bit_operations_syntax

section \<open>The fault-injection engine shim (ewouldblock\_engine.cc)\<close>

text \<open>
  A shallow embedding of \<^verbatim>\<open>src/engines/ewouldblock_engine/ewouldblock_engine.cc\<close>:
  the fault injectors (\<^verbatim>\<open>FaultInjectMode\<close> and its six subclasses), the gate
  \<^verbatim>\<open>EWB_Engine::should_inject_error\<close>, the engine operations that consult it, the
  suspension map with \<^verbatim>\<open>suspend\<close>/\<^verbatim>\<open>resume\<close>, the control opcode and the
  synthetic DCP stream. Every operation is a function from the engine's state to a result
  and the new state; each call is taken as one atomic step (the mutexes of the source are
  not modelled).
\<close>

subsection \<open>Enumerations and handles\<close>

text \<open>\<^verbatim>\<open>enum class Cmd\<close>, in the order of its declaration.\<close>

datatype Cmd =
    NONE | GET_INFO | ALLOCATE | REMOVE | GET | STORE | CAS | ARITHMETIC
  | LOCK | UNLOCK | FLUSH | GET_STATS | GET_META | UNKNOWN_COMMAND

text \<open>
  \<^verbatim>\<open>ENGINE_ERROR_CODE\<close> is declared in a header outside this file. The constructors
  are the codes the file names; \<open>ENGINE_OTHER\<close> stands for every other value of the
  enumeration (the control opcode casts a 32-bit field of the payload to it).
\<close>

datatype ENGINE_ERROR_CODE =
    ENGINE_SUCCESS | ENGINE_KEY_ENOENT | ENGINE_KEY_EEXISTS | ENGINE_ENOMEM
  | ENGINE_EINVAL | ENGINE_ENOTSUP | ENGINE_EWOULDBLOCK | ENGINE_ROLLBACK
  | ENGINE_FAILED | ENGINE_OTHER "32 word"

text \<open>
  \<^verbatim>\<open>ENGINE_STORE_OPERATION\<close> is declared outside this file as well; the file only
  distinguishes \<^verbatim>\<open>OPERATION_CAS\<close> from the rest.
\<close>

datatype ENGINE_STORE_OPERATION = OPERATION_CAS | OPERATION_OTHER

text \<open>A cookie is an opaque pointer (\<^verbatim>\<open>const void*\<close>): only equality is used.\<close>

type_synonym cookie = nat

subsection \<open>Fault injectors\<close>

text \<open>
  One constructor per subclass of \<^verbatim>\<open>FaultInjectMode\<close>. The first field is the base
  class's \<^verbatim>\<open>injected_error\<close>; the others are the subclass's own fields
  (\<^verbatim>\<open>prev_cmd\<close>; \<^verbatim>\<open>count\<close>; \<^verbatim>\<open>percentage_to_err\<close>; \<^verbatim>\<open>sequence\<close> and
  \<^verbatim>\<open>pos\<close>; \<^verbatim>\<open>issued_return_error\<close>; \<^verbatim>\<open>count\<close>).
\<close>

datatype FaultInjectMode =
    ErrOnFirst ENGINE_ERROR_CODE Cmd
  | ErrOnNextN ENGINE_ERROR_CODE "32 word"
  | ErrRandom ENGINE_ERROR_CODE "32 word"
  | ErrSequence ENGINE_ERROR_CODE "32 word" "32 word"
  | ErrOnNoNotify ENGINE_ERROR_CODE bool
  | CASMismatch ENGINE_ERROR_CODE "32 word"

text \<open>The constructors of the six classes.\<close>

definition new_ErrOnFirst :: "ENGINE_ERROR_CODE \<Rightarrow> FaultInjectMode" where
  "new_ErrOnFirst injected_error = ErrOnFirst injected_error NONE"

definition new_ErrOnNextN :: "ENGINE_ERROR_CODE \<Rightarrow> 32 word \<Rightarrow> FaultInjectMode" where
  "new_ErrOnNextN injected_error count = ErrOnNextN injected_error count"

definition new_ErrRandom :: "ENGINE_ERROR_CODE \<Rightarrow> 32 word \<Rightarrow> FaultInjectMode" where
  "new_ErrRandom injected_error percentage = ErrRandom injected_error percentage"

definition new_ErrSequence :: "ENGINE_ERROR_CODE \<Rightarrow> 32 word \<Rightarrow> FaultInjectMode" where
  "new_ErrSequence injected_error sequence = ErrSequence injected_error sequence 0"

definition new_ErrOnNoNotify :: "ENGINE_ERROR_CODE \<Rightarrow> FaultInjectMode" where
  "new_ErrOnNoNotify injected_error = ErrOnNoNotify injected_error False"

definition new_CASMismatch :: "32 word \<Rightarrow> FaultInjectMode" where
  "new_CASMismatch count = CASMismatch ENGINE_KEY_EEXISTS count"

text \<open>
  The virtual method \<^verbatim>\<open>FaultInjectMode::should_inject_error(cmd, err)\<close>, one equation
  per override. \<open>err\<close> is the reference parameter: the result carries the returned flag
  and the value of \<open>err\<close> afterwards, together with the injector's new fields.
  \<open>dis_gen\<close> is the value \<^verbatim>\<open>dis(gen)\<close> draws in \<^verbatim>\<open>ErrRandom\<close>, a number from
  1 to 100 chosen by the random device; the other classes do not read it.
  In \<^verbatim>\<open>ErrSequence\<close>, \<^verbatim>\<open>1 << pos\<close> is the word with bit \<open>pos\<close> set.
\<close>

fun FaultInjectMode_should_inject_error ::
  "FaultInjectMode \<Rightarrow> Cmd \<Rightarrow> 32 word \<Rightarrow> ENGINE_ERROR_CODE
     \<Rightarrow> (bool \<times> ENGINE_ERROR_CODE) \<times> FaultInjectMode" where
  "FaultInjectMode_should_inject_error (ErrOnFirst injected_error prev_cmd) cmd dis_gen err =
     (let inject = (prev_cmd \<noteq> cmd)
      in ((inject, if inject then injected_error else err), ErrOnFirst injected_error cmd))"
| "FaultInjectMode_should_inject_error (ErrOnNextN injected_error count) cmd dis_gen err =
     (if count > 0 then ((True, injected_error), ErrOnNextN injected_error (count - 1))
      else ((False, err), ErrOnNextN injected_error count))"
| "FaultInjectMode_should_inject_error (ErrRandom injected_error percentage_to_err) cmd dis_gen err =
     (if dis_gen < percentage_to_err
      then ((True, injected_error), ErrRandom injected_error percentage_to_err)
      else ((False, err), ErrRandom injected_error percentage_to_err))"
| "FaultInjectMode_should_inject_error (ErrSequence injected_error sequence pos) cmd dis_gen err =
     (if pos < 32
      then (let inject = (sequence AND push_bit (unat pos) 1 \<noteq> 0)
            in ((inject, if inject then injected_error else err),
                ErrSequence injected_error sequence (pos + 1)))
      else ((False, err), ErrSequence injected_error sequence pos))"
| "FaultInjectMode_should_inject_error (ErrOnNoNotify injected_error issued_return_error) cmd dis_gen err =
     (if \<not> issued_return_error then ((True, injected_error), ErrOnNoNotify injected_error True)
      else ((False, err), ErrOnNoNotify injected_error issued_return_error))"
| "FaultInjectMode_should_inject_error (CASMismatch injected_error count) cmd dis_gen err =
     (if cmd = CAS \<and> count > 0 then ((True, injected_error), CASMismatch injected_error (count - 1))
      else ((False, err), CASMismatch injected_error count))"

text \<open>\<^verbatim>\<open>add_to_pending_io_ops()\<close>: true in the base class, false in \<^verbatim>\<open>ErrOnNoNotify\<close>.\<close>

fun add_to_pending_io_ops :: "FaultInjectMode \<Rightarrow> bool" where
  "add_to_pending_io_ops (ErrOnNoNotify injected_error issued_return_error) = False"
| "add_to_pending_io_ops mode = True"

subsection \<open>The engine's state\<close>

text \<open>
  The host's capabilities the shim calls: the connection id of a cookie
  (\<^verbatim>\<open>real_api->cookie->get_connection_id\<close>), whether a path is a file
  (\<^verbatim>\<open>cb::io::isFile\<close>) and the status of the wrapped engine's \<^verbatim>\<open>get\<close> for a key
  (read by \<^verbatim>\<open>setItemCas\<close>).
\<close>

record Host =
  get_connection_id :: "cookie \<Rightarrow> 64 word"
  isFile :: "string \<Rightarrow> bool"
  real_engine_get :: "string \<Rightarrow> ENGINE_ERROR_CODE"

text \<open>
  The fields of \<^verbatim>\<open>EWB_Engine\<close> the operations below read or write. Each
  \<^verbatim>\<open>std::map\<close> is an association list read with \<^const>\<open>map_of\<close> and written with
  \<^const>\<open>AList.update\<close> and \<^const>\<open>AList.delete\<close>; the queue \<^verbatim>\<open>pending_io_ops\<close>
  is a list with its front first. \<open>real_engine_dcp\<close> says whether the pointer of that
  name is non-null; \<open>threads\<close> lists the block monitors started, by id and file.
\<close>

record EWB_Engine =
  connection_map :: "(64 word \<times> (cookie \<times> FaultInjectMode)) list"
  suspended_map :: "(32 word \<times> cookie) list"
  pending_io_ops :: "cookie list"
  dcp_stream :: "(cookie \<times> (bool \<times> 64 word)) list"
  real_engine_dcp :: bool
  clustermap_revno :: "32 word"
  threads :: "(32 word \<times> string) list"

text \<open>The state the constructor leaves (\<^verbatim>\<open>clustermap_revno = 1\<close>, every map empty).\<close>

definition new_EWB_Engine :: "bool \<Rightarrow> EWB_Engine" where
  "new_EWB_Engine dcp =
     \<lparr>connection_map = [], suspended_map = [], pending_io_ops = [], dcp_stream = [],
      real_engine_dcp = dcp, clustermap_revno = 1, threads = []\<rparr>"

subsection \<open>Suspension and notification\<close>

definition schedule_notification :: "EWB_Engine \<Rightarrow> cookie \<Rightarrow> EWB_Engine" where
  "schedule_notification s cookie = s\<lparr>pending_io_ops := pending_io_ops s @ [cookie]\<rparr>"

definition suspend :: "EWB_Engine \<Rightarrow> cookie \<Rightarrow> 32 word \<Rightarrow> bool \<times> EWB_Engine" where
  "suspend s cookie ident =
     (case map_of (suspended_map s) ident of
        None \<Rightarrow> (True, s\<lparr>suspended_map := AList.update ident cookie (suspended_map s)\<rparr>)
      | Some c \<Rightarrow> (False, s))"

definition resume :: "EWB_Engine \<Rightarrow> 32 word \<Rightarrow> bool \<times> EWB_Engine" where
  "resume s ident =
     (case map_of (suspended_map s) ident of
        None \<Rightarrow> (False, s)
      | Some cookie \<Rightarrow>
          (True, schedule_notification
                   (s\<lparr>suspended_map := AList.delete ident (suspended_map s)\<rparr>) cookie))"

text \<open>The loop of \<^verbatim>\<open>is_connection_suspended\<close> over the entries of the map.\<close>

fun suspended_in :: "(32 word \<times> cookie) list \<Rightarrow> cookie \<Rightarrow> bool" where
  "suspended_in [] cookie = False"
| "suspended_in (c # cs) cookie = (if snd c = cookie then True else suspended_in cs cookie)"

definition is_connection_suspended :: "EWB_Engine \<Rightarrow> cookie \<Rightarrow> bool" where
  "is_connection_suspended s cookie = suspended_in (suspended_map s) cookie"

subsection \<open>The gate\<close>

text \<open>
  \<^verbatim>\<open>EWB_Engine::should_inject_error(cmd, cookie, err)\<close>. The injector is held by
  pointer in the map, so its new fields are written back to the entry.
\<close>

definition should_inject_error ::
  "Host \<Rightarrow> 32 word \<Rightarrow> EWB_Engine \<Rightarrow> Cmd \<Rightarrow> cookie \<Rightarrow> ENGINE_ERROR_CODE
     \<Rightarrow> (bool \<times> ENGINE_ERROR_CODE) \<times> EWB_Engine" where
  "should_inject_error h dis_gen s cmd cookie err =
     (if is_connection_suspended s cookie then ((True, ENGINE_EWOULDBLOCK), s)
      else
        (let conn = get_connection_id h cookie in
         case map_of (connection_map s) conn of
           None \<Rightarrow> ((False, err), s)
         | Some (stored, mode) \<Rightarrow>
             if stored \<noteq> cookie
             then ((False, err), s\<lparr>connection_map := AList.delete conn (connection_map s)\<rparr>)
             else
               (case FaultInjectMode_should_inject_error mode cmd dis_gen err of
                  ((inject, err'), mode') \<Rightarrow>
                    (let add = add_to_pending_io_ops mode';
                         s' = s\<lparr>connection_map :=
                                  AList.update conn (stored, mode') (connection_map s)\<rparr>
                     in if inject \<and> err' = ENGINE_EWOULDBLOCK \<and> add
                        then ((inject, err'), schedule_notification s' stored)
                        else ((inject, err'), s')))))"

subsection \<open>The engine operations behind the gate\<close>

text \<open>
  What an operation of the shim gives back: a code of its own, or whatever the wrapped
  engine returns for the forwarded call. \<^verbatim>\<open>allocate_ex\<close> has no error code in its
  result and delivers the code in a thrown \<^verbatim>\<open>cb::engine_error\<close>; that raise is
  \<open>Returned\<close> here as well.
\<close>

datatype outcome = Returned ENGINE_ERROR_CODE | Forwarded

definition allocate :: "Host \<Rightarrow> 32 word \<Rightarrow> EWB_Engine \<Rightarrow> cookie \<Rightarrow> outcome \<times> EWB_Engine" where
  "allocate h dis_gen s cookie =
     (case should_inject_error h dis_gen s ALLOCATE cookie ENGINE_SUCCESS of
        ((inject, err), s') \<Rightarrow> if inject then (Returned err, s') else (Forwarded, s'))"

definition allocate_ex :: "Host \<Rightarrow> 32 word \<Rightarrow> EWB_Engine \<Rightarrow> cookie \<Rightarrow> outcome \<times> EWB_Engine" where
  "allocate_ex h dis_gen s cookie =
     (case should_inject_error h dis_gen s ALLOCATE cookie ENGINE_SUCCESS of
        ((inject, err), s') \<Rightarrow> if inject then (Returned err, s') else (Forwarded, s'))"

definition remove_op :: "Host \<Rightarrow> 32 word \<Rightarrow> EWB_Engine \<Rightarrow> cookie \<Rightarrow> outcome \<times> EWB_Engine" where
  "remove_op h dis_gen s cookie =
     (case should_inject_error h dis_gen s REMOVE cookie ENGINE_SUCCESS of
        ((inject, err), s') \<Rightarrow> if inject then (Returned err, s') else (Forwarded, s'))"

definition get :: "Host \<Rightarrow> 32 word \<Rightarrow> EWB_Engine \<Rightarrow> cookie \<Rightarrow> outcome \<times> EWB_Engine" where
  "get h dis_gen s cookie =
     (case should_inject_error h dis_gen s GET cookie ENGINE_SUCCESS of
        ((inject, err), s') \<Rightarrow> if inject then (Returned err, s') else (Forwarded, s'))"

text \<open>\<^verbatim>\<open>get_if\<close> and \<^verbatim>\<open>get_and_touch\<close> return \<^verbatim>\<open>would_block\<close> whatever \<open>err\<close> is.\<close>

definition get_if :: "Host \<Rightarrow> 32 word \<Rightarrow> EWB_Engine \<Rightarrow> cookie \<Rightarrow> outcome \<times> EWB_Engine" where
  "get_if h dis_gen s cookie =
     (case should_inject_error h dis_gen s GET cookie ENGINE_SUCCESS of
        ((inject, err), s') \<Rightarrow>
          if inject then (Returned ENGINE_EWOULDBLOCK, s') else (Forwarded, s'))"

definition get_and_touch :: "Host \<Rightarrow> 32 word \<Rightarrow> EWB_Engine \<Rightarrow> cookie \<Rightarrow> outcome \<times> EWB_Engine" where
  "get_and_touch h dis_gen s cookie =
     (case should_inject_error h dis_gen s GET cookie ENGINE_SUCCESS of
        ((inject, err), s') \<Rightarrow>
          if inject then (Returned ENGINE_EWOULDBLOCK, s') else (Forwarded, s'))"

definition get_locked :: "Host \<Rightarrow> 32 word \<Rightarrow> EWB_Engine \<Rightarrow> cookie \<Rightarrow> outcome \<times> EWB_Engine" where
  "get_locked h dis_gen s cookie =
     (case should_inject_error h dis_gen s LOCK cookie ENGINE_SUCCESS of
        ((inject, err), s') \<Rightarrow> if inject then (Returned err, s') else (Forwarded, s'))"

definition unlock :: "Host \<Rightarrow> 32 word \<Rightarrow> EWB_Engine \<Rightarrow> cookie \<Rightarrow> outcome \<times> EWB_Engine" where
  "unlock h dis_gen s cookie =
     (case should_inject_error h dis_gen s UNLOCK cookie ENGINE_SUCCESS of
        ((inject, err), s') \<Rightarrow> if inject then (Returned err, s') else (Forwarded, s'))"

definition get_meta :: "Host \<Rightarrow> 32 word \<Rightarrow> EWB_Engine \<Rightarrow> cookie \<Rightarrow> outcome \<times> EWB_Engine" where
  "get_meta h dis_gen s cookie =
     (case should_inject_error h dis_gen s GET_META cookie ENGINE_SUCCESS of
        ((inject, err), s') \<Rightarrow> if inject then (Returned err, s') else (Forwarded, s'))"

definition store ::
  "Host \<Rightarrow> 32 word \<Rightarrow> EWB_Engine \<Rightarrow> cookie \<Rightarrow> ENGINE_STORE_OPERATION \<Rightarrow> outcome \<times> EWB_Engine" where
  "store h dis_gen s cookie operation =
     (let opcode = (if operation = OPERATION_CAS then CAS else STORE) in
      case should_inject_error h dis_gen s opcode cookie ENGINE_SUCCESS of
        ((inject, err), s') \<Rightarrow> if inject then (Returned err, s') else (Forwarded, s'))"

definition store_if ::
  "Host \<Rightarrow> 32 word \<Rightarrow> EWB_Engine \<Rightarrow> cookie \<Rightarrow> ENGINE_STORE_OPERATION \<Rightarrow> outcome \<times> EWB_Engine" where
  "store_if h dis_gen s cookie operation =
     (let opcode = (if operation = OPERATION_CAS then CAS else STORE) in
      case should_inject_error h dis_gen s opcode cookie ENGINE_SUCCESS of
        ((inject, err), s') \<Rightarrow> if inject then (Returned err, s') else (Forwarded, s'))"

definition get_stats :: "Host \<Rightarrow> 32 word \<Rightarrow> EWB_Engine \<Rightarrow> cookie \<Rightarrow> outcome \<times> EWB_Engine" where
  "get_stats h dis_gen s cookie =
     (case should_inject_error h dis_gen s GET_STATS cookie ENGINE_SUCCESS of
        ((inject, err), s') \<Rightarrow> if inject then (Returned err, s') else (Forwarded, s'))"

text \<open>\<^verbatim>\<open>flush\<close> does not consult the gate.\<close>

definition flush :: "EWB_Engine \<Rightarrow> cookie \<Rightarrow> outcome \<times> EWB_Engine" where
  "flush s cookie = (Forwarded, s)"

subsection \<open>The control opcode\<close>

text \<open>
  \<^verbatim>\<open>EWBEngineMode\<close> and \<^verbatim>\<open>cb::mcbp::Status\<close> are declared outside this file; the
  constructors are the values the file names, and \<open>Unknown_mode\<close> is a mode byte that is
  none of them. A request is either the control opcode with the fields of its payload
  (mode, value, code to inject, key) or any other opcode.
\<close>

datatype EWBEngineMode =
    Next_N | Random | First | Sequence | No_Notify | CasMismatch
  | IncrementClusterMapRevno | BlockMonitorFile | Suspend | Resume | SetItemCas
  | Unknown_mode

datatype Status = Success | Einval

datatype Request =
    EwouldblockCtl EWBEngineMode "32 word" ENGINE_ERROR_CODE string
  | Other_opcode

text \<open>
  The handlers return the engine code and the status passed to \<^verbatim>\<open>response\<close>, if it
  was called. In \<^verbatim>\<open>handleBlockMonitorFile\<close> the monitor thread is recorded as
  started; what the thread does later, and a failure to start it, are not modelled.
\<close>

definition handleBlockMonitorFile ::
  "Host \<Rightarrow> EWB_Engine \<Rightarrow> cookie \<Rightarrow> 32 word \<Rightarrow> string
     \<Rightarrow> (ENGINE_ERROR_CODE \<times> Status option) \<times> EWB_Engine" where
  "handleBlockMonitorFile h s cookie ident file =
     (if file = [] then ((ENGINE_EINVAL, None), s)
      else if \<not> isFile h file then ((ENGINE_KEY_ENOENT, None), s)
      else
        (case suspend s cookie ident of
           (ok, s') \<Rightarrow>
             if \<not> ok then ((ENGINE_KEY_EEXISTS, None), s')
             else ((ENGINE_SUCCESS, Some Success), s'\<lparr>threads := threads s' @ [(ident, file)]\<rparr>)))"

definition handleSuspend ::
  "EWB_Engine \<Rightarrow> cookie \<Rightarrow> 32 word \<Rightarrow> (ENGINE_ERROR_CODE \<times> Status option) \<times> EWB_Engine" where
  "handleSuspend s cookie ident =
     (case suspend s cookie ident of
        (ok, s') \<Rightarrow>
          if ok then ((ENGINE_SUCCESS, Some Success), s')
          else ((ENGINE_KEY_EEXISTS, None), s'))"

definition handleResume ::
  "EWB_Engine \<Rightarrow> cookie \<Rightarrow> 32 word \<Rightarrow> (ENGINE_ERROR_CODE \<times> Status option) \<times> EWB_Engine" where
  "handleResume s cookie ident =
     (case resume s ident of
        (ok, s') \<Rightarrow>
          if ok then ((ENGINE_SUCCESS, Some Success), s')
          else ((ENGINE_EINVAL, None), s'))"

text \<open>
  \<^verbatim>\<open>setItemCas\<close> changes an item of the wrapped engine only; of the shim's state
  nothing changes.
\<close>

definition setItemCas ::
  "Host \<Rightarrow> EWB_Engine \<Rightarrow> cookie \<Rightarrow> string \<Rightarrow> 32 word
     \<Rightarrow> (ENGINE_ERROR_CODE \<times> Status option) \<times> EWB_Engine" where
  "setItemCas h s cookie key cas =
     (if real_engine_get h key \<noteq> ENGINE_SUCCESS then ((real_engine_get h key, None), s)
      else ((ENGINE_SUCCESS, Some Success), s))"

text \<open>The cases of the switch in \<^verbatim>\<open>unknown_command\<close> that build a fault injector.\<close>

fun new_mode :: "EWBEngineMode \<Rightarrow> 32 word \<Rightarrow> ENGINE_ERROR_CODE \<Rightarrow> FaultInjectMode option" where
  "new_mode Next_N v injected_error = Some (new_ErrOnNextN injected_error v)"
| "new_mode Random v injected_error = Some (new_ErrRandom injected_error v)"
| "new_mode First v injected_error = Some (new_ErrOnFirst injected_error)"
| "new_mode Sequence v injected_error = Some (new_ErrSequence injected_error v)"
| "new_mode No_Notify v injected_error = Some (new_ErrOnNoNotify injected_error)"
| "new_mode CasMismatch v injected_error = Some (new_CASMismatch v)"
| "new_mode m v injected_error = None"

text \<open>
  \<^verbatim>\<open>unknown_command\<close>: the control opcode configures the shim, every other opcode goes
  through the gate. A failed allocation (\<^verbatim>\<open>ENGINE_ENOMEM\<close>) is not modelled.
\<close>

definition unknown_command ::
  "Host \<Rightarrow> 32 word \<Rightarrow> EWB_Engine \<Rightarrow> cookie \<Rightarrow> Request
     \<Rightarrow> (outcome \<times> Status option) \<times> EWB_Engine" where
  "unknown_command h dis_gen s cookie req =
     (case req of
        EwouldblockCtl mode v injected_error key \<Rightarrow>
          (case mode of
             IncrementClusterMapRevno \<Rightarrow>
               ((Returned ENGINE_SUCCESS, Some Success),
                s\<lparr>clustermap_revno := clustermap_revno s + 1\<rparr>)
           | BlockMonitorFile \<Rightarrow>
               (case handleBlockMonitorFile h s cookie v key of
                  ((e, r), s') \<Rightarrow> ((Returned e, r), s'))
           | Suspend \<Rightarrow>
               (case handleSuspend s cookie v of ((e, r), s') \<Rightarrow> ((Returned e, r), s'))
           | Resume \<Rightarrow>
               (case handleResume s cookie v of ((e, r), s') \<Rightarrow> ((Returned e, r), s'))
           | SetItemCas \<Rightarrow>
               (case setItemCas h s cookie key v of ((e, r), s') \<Rightarrow> ((Returned e, r), s'))
           | _ \<Rightarrow>
               (case new_mode mode v injected_error of
                  None \<Rightarrow> ((Returned ENGINE_FAILED, Some Einval), s)
                | Some m \<Rightarrow>
                    (let conn = get_connection_id h cookie in
                     ((Returned ENGINE_SUCCESS, Some Success),
                      s\<lparr>connection_map :=
                           AList.update conn (cookie, m)
                             (AList.delete conn (connection_map s))\<rparr>))))
      | Other_opcode \<Rightarrow>
          (case should_inject_error h dis_gen s UNKNOWN_COMMAND cookie ENGINE_SUCCESS of
             ((inject, err), s') \<Rightarrow>
               if inject then ((Returned err, None), s') else ((Forwarded, None), s')))"

text \<open>\<^verbatim>\<open>handle_disconnect\<close> erases the connection's entry.\<close>

definition handle_disconnect :: "Host \<Rightarrow> EWB_Engine \<Rightarrow> cookie \<Rightarrow> EWB_Engine" where
  "handle_disconnect h s cookie =
     s\<lparr>connection_map := AList.delete (get_connection_id h cookie) (connection_map s)\<rparr>"

subsection \<open>The synthetic DCP stream\<close>

text \<open>
  \<^verbatim>\<open>std::stoull(str)\<close> of the C++ library, base 10: leading white space is skipped, a
  sign is accepted, the longest run of digits is read; no digit raises
  \<^verbatim>\<open>std::invalid_argument\<close>, a value beyond 64 bits raises \<^verbatim>\<open>std::out_of_range\<close>,
  and a minus sign negates the value modulo \<open>2 ^ 64\<close>.
\<close>

datatype cxx_exception = invalid_argument | out_of_range

definition isspace :: "char \<Rightarrow> bool" where
  "isspace c = (of_char c \<in> set [32, 9, 10, 11, 12, 13 :: nat])"

definition isdigit :: "char \<Rightarrow> bool" where
  "isdigit c = (48 \<le> (of_char c :: nat) \<and> (of_char c :: nat) \<le> 57)"

definition digits_value :: "string \<Rightarrow> nat" where
  "digits_value ds = foldl (\<lambda>a c. 10 * a + (of_char c - 48)) 0 ds"

definition stoull :: "string \<Rightarrow> cxx_exception + 64 word" where
  "stoull str =
     (let s1 = dropWhile isspace str;
          neg = (s1 \<noteq> [] \<and> hd s1 = CHR ''-'');
          s2 = (if s1 \<noteq> [] \<and> (hd s1 = CHR ''-'' \<or> hd s1 = CHR ''+'') then tl s1 else s1);
          ds = takeWhile isdigit s2
      in if ds = [] then Inl invalid_argument
         else if digits_value ds \<ge> 2 ^ 64 then Inl out_of_range
         else Inr (if neg then - word_of_nat (digits_value ds) else word_of_nat (digits_value ds)))"

text \<open>\<^verbatim>\<open>nm.rfind(":")\<close>: the index of the last colon, if there is one.\<close>

definition rfind_colon :: "string \<Rightarrow> nat option" where
  "rfind_colon nm =
     (if CHR '':'' \<in> set nm
      then Some (length nm - 1 - length (takeWhile (\<lambda>c. c \<noteq> CHR '':'') (rev nm)))
      else None)"

text \<open>
  \<^verbatim>\<open>EWB_Engine::open\<close>. An exception of \<^verbatim>\<open>std::stoull\<close> leaves the function
  (\<open>Inl\<close>); \<open>-1\<close> is \<^verbatim>\<open>std::numeric_limits<uint64_t>::max()\<close>.
\<close>

definition dcp_open ::
  "EWB_Engine \<Rightarrow> cookie \<Rightarrow> string \<Rightarrow> cxx_exception + (outcome \<times> EWB_Engine)" where
  "dcp_open s cookie nm =
     (if take 12 nm = ''ewb_internal''
      then
        (case rfind_colon nm of
           Some idx \<Rightarrow>
             (case stoull (drop (idx + 1) nm) of
                Inl exn \<Rightarrow> Inl exn
              | Inr n \<Rightarrow>
                  Inr (Returned ENGINE_SUCCESS,
                       s\<lparr>dcp_stream := AList.update cookie (False, n) (dcp_stream s)\<rparr>))
         | None \<Rightarrow>
             Inr (Returned ENGINE_SUCCESS,
                  s\<lparr>dcp_stream := AList.update cookie (False, - 1) (dcp_stream s)\<rparr>))
      else if \<not> real_engine_dcp s then Inr (Returned ENGINE_ENOTSUP, s)
      else Inr (Forwarded, s))"

text \<open>
  \<^verbatim>\<open>EWB_Engine::stream_req\<close>, with the arguments it reads. \<open>rollback_seqno\<close> is the
  value behind the pointer of that name; the result carries its value afterwards.
\<close>

definition stream_req ::
  "EWB_Engine \<Rightarrow> cookie \<Rightarrow> 64 word \<Rightarrow> 64 word \<Rightarrow> (outcome \<times> 64 word) \<times> EWB_Engine" where
  "stream_req s cookie start_seqno rollback_seqno =
     (case map_of (dcp_stream s) cookie of
        Some (started, count) \<Rightarrow>
          if start_seqno = 1 then ((Returned ENGINE_ROLLBACK, 0), s)
          else ((Returned ENGINE_SUCCESS, rollback_seqno),
                s\<lparr>dcp_stream := AList.update cookie (True, count) (dcp_stream s)\<rparr>)
      | None \<Rightarrow>
          if \<not> real_engine_dcp s then ((Returned ENGINE_ENOTSUP, rollback_seqno), s)
          else ((Forwarded, rollback_seqno), s))"

text \<open>
  The message \<^verbatim>\<open>step\<close> hands to \<^verbatim>\<open>producers->mutation\<close>: the opaque, the key of
  \<^verbatim>\<open>dcp_mutation_item\<close>, the vbucket, the two sequence numbers, the lock time and nru.
\<close>

record mutation_message =
  opaque :: "32 word"
  item_key :: string
  vbucket :: "16 word"
  by_seqno :: "64 word"
  rev_seqno :: "64 word"
  lock_time :: "32 word"
  nru :: "8 word"

definition dcp_mutation :: mutation_message where
  "dcp_mutation =
     \<lparr>opaque = 0xdeadbeef, item_key = ''k'', vbucket = 0, by_seqno = 0, rev_seqno = 0,
      lock_time = 0, nru = 0\<rparr>"

text \<open>
  \<^verbatim>\<open>EWB_Engine::step\<close>. \<open>ret\<close> is the code the host's \<^verbatim>\<open>producers->mutation\<close>
  returns for the message; the result says which message was produced, if any.
\<close>

definition step ::
  "ENGINE_ERROR_CODE \<Rightarrow> EWB_Engine \<Rightarrow> cookie
     \<Rightarrow> (mutation_message option \<times> outcome) \<times> EWB_Engine" where
  "step ret s cookie =
     (case map_of (dcp_stream s) cookie of
        Some (started, count) \<Rightarrow>
          if started \<and> count > 0
          then ((Some dcp_mutation, Returned ret),
                s\<lparr>dcp_stream := AList.update cookie (started, count - 1) (dcp_stream s)\<rparr>)
          else ((None, Returned ENGINE_EWOULDBLOCK), s)
      | None \<Rightarrow>
          if \<not> real_engine_dcp s then ((None, Returned ENGINE_ENOTSUP), s)
          else ((None, Forwarded), s))"

subsection \<open>Sequences of calls\<close>

text \<open>
  A gated operation, by the method of the engine that is called; \<open>call\<close> runs it.
\<close>

datatype engine_call =
    Allocate | Allocate_ex | Remove | Get | Get_if | Get_and_touch | Get_locked | Unlock
  | Get_meta | Store ENGINE_STORE_OPERATION | Store_if ENGINE_STORE_OPERATION | Get_stats
  | Unknown_command

fun call :: "Host \<Rightarrow> 32 word \<Rightarrow> EWB_Engine \<Rightarrow> cookie \<Rightarrow> engine_call \<Rightarrow> outcome \<times> EWB_Engine" where
  "call h d s c Allocate = allocate h d s c"
| "call h d s c Allocate_ex = allocate_ex h d s c"
| "call h d s c Remove = remove_op h d s c"
| "call h d s c Get = get h d s c"
| "call h d s c Get_if = get_if h d s c"
| "call h d s c Get_and_touch = get_and_touch h d s c"
| "call h d s c Get_locked = get_locked h d s c"
| "call h d s c Unlock = unlock h d s c"
| "call h d s c Get_meta = get_meta h d s c"
| "call h d s c (Store operation) = store h d s c operation"
| "call h d s c (Store_if operation) = store_if h d s c operation"
| "call h d s c Get_stats = get_stats h d s c"
| "call h d s c Unknown_command =
     (case unknown_command h d s c Other_opcode of ((r, resp), s') \<Rightarrow> (r, s'))"

text \<open>The kind each operation passes to the gate.\<close>

fun cmd_of :: "engine_call \<Rightarrow> Cmd" where
  "cmd_of Allocate = ALLOCATE"
| "cmd_of Allocate_ex = ALLOCATE"
| "cmd_of Remove = REMOVE"
| "cmd_of Get = GET"
| "cmd_of Get_if = GET"
| "cmd_of Get_and_touch = GET"
| "cmd_of Get_locked = LOCK"
| "cmd_of Unlock = UNLOCK"
| "cmd_of Get_meta = GET_META"
| "cmd_of (Store operation) = (if operation = OPERATION_CAS then CAS else STORE)"
| "cmd_of (Store_if operation) = (if operation = OPERATION_CAS then CAS else STORE)"
| "cmd_of Get_stats = GET_STATS"
| "cmd_of Unknown_command = UNKNOWN_COMMAND"

text \<open>
  Successive calls of the gate by one cookie, each with its kind and the draw of the
  random device, and with \<open>err\<close> set to \<^verbatim>\<open>ENGINE_SUCCESS\<close> as every operation sets it:
  the decisions in order, and the state at the end.
\<close>

fun gate_calls ::
  "Host \<Rightarrow> EWB_Engine \<Rightarrow> cookie \<Rightarrow> (Cmd \<times> 32 word) list
     \<Rightarrow> (bool \<times> ENGINE_ERROR_CODE) list \<times> EWB_Engine" where
  "gate_calls h s cookie [] = ([], s)"
| "gate_calls h s cookie ((cmd, dis_gen) # rest) =
     (case should_inject_error h dis_gen s cmd cookie ENGINE_SUCCESS of
        (r, s') \<Rightarrow> (case gate_calls h s' cookie rest of (rs, s'') \<Rightarrow> (r # rs, s'')))"

text \<open>Successive calls of one injector's own method, in the same way.\<close>

fun mode_calls ::
  "FaultInjectMode \<Rightarrow> (Cmd \<times> 32 word) list \<Rightarrow> (bool \<times> ENGINE_ERROR_CODE) list \<times> FaultInjectMode" where
  "mode_calls m [] = ([], m)"
| "mode_calls m ((cmd, dis_gen) # rest) =
     (case FaultInjectMode_should_inject_error m cmd dis_gen ENGINE_SUCCESS of
        (r, m') \<Rightarrow> (case mode_calls m' rest of (rs, m'') \<Rightarrow> (r # rs, m'')))"

text \<open>Successive operations of one cookie: the outcomes in order, and the state at the end.\<close>

fun calls ::
  "Host \<Rightarrow> EWB_Engine \<Rightarrow> cookie \<Rightarrow> (engine_call \<times> 32 word) list \<Rightarrow> outcome list \<times> EWB_Engine" where
  "calls h s cookie [] = ([], s)"
| "calls h s cookie ((op, dis_gen) # rest) =
     (case call h dis_gen s cookie op of
        (r, s') \<Rightarrow> (case calls h s' cookie rest of (rs, s'') \<Rightarrow> (r # rs, s'')))"

text \<open>\<open>n\<close> successive calls of \<^verbatim>\<open>step\<close> by one cookie.\<close>

fun steps ::
  "ENGINE_ERROR_CODE \<Rightarrow> EWB_Engine \<Rightarrow> cookie \<Rightarrow> nat
     \<Rightarrow> (mutation_message option \<times> outcome) list \<times> EWB_Engine" where
  "steps ret s cookie 0 = ([], s)"
| "steps ret s cookie (Suc n) =
     (case step ret s cookie of
        (r, s') \<Rightarrow> (case steps ret s' cookie n of (rs, s'') \<Rightarrow> (r # rs, s'')))"

subsection \<open>A host for the examples\<close>

text \<open>
  The examples below run on a host that numbers a connection by its cookie, on which
  every path is a file and the wrapped engine finds every key.
\<close>

definition example_host :: Host where
  "example_host =
     \<lparr>get_connection_id = (\<lambda>c. word_of_nat c), isFile = (\<lambda>f. True),
      real_engine_get = (\<lambda>k. ENGINE_SUCCESS)\<rparr>"

section \<open>Auxiliary facts\<close>

subsection \<open>One call of the gate\<close>

lemma suspended_in_iff: "suspended_in m c \<longleftrightarrow> c \<in> snd ` set m"
  by (induction m) auto

lemma gate_suspended:
  "is_connection_suspended s c \<Longrightarrow>
   should_inject_error h d s cmd c err = ((True, ENGINE_EWOULDBLOCK), s)"
  by (simp add: should_inject_error_def)

lemma gate_no_entry:
  "\<not> is_connection_suspended s c \<Longrightarrow> map_of (connection_map s) (get_connection_id h c) = None \<Longrightarrow>
   should_inject_error h d s cmd c err = ((False, err), s)"
  by (simp add: should_inject_error_def)

lemma gate_mismatch:
  "\<not> is_connection_suspended s c \<Longrightarrow>
   map_of (connection_map s) (get_connection_id h c) = Some (stored, m) \<Longrightarrow> stored \<noteq> c \<Longrightarrow>
   should_inject_error h d s cmd c err =
     ((False, err),
      s\<lparr>connection_map := AList.delete (get_connection_id h c) (connection_map s)\<rparr>)"
  by (simp add: should_inject_error_def)

lemma suspended_schedule [simp]:
  "is_connection_suspended (schedule_notification s x) c = is_connection_suspended s c"
  by (simp add: is_connection_suspended_def schedule_notification_def)

lemma gate_matched_eq:
  assumes "\<not> is_connection_suspended s c"
    and "map_of (connection_map s) (get_connection_id h c) = Some (c, m)"
    and "FaultInjectMode_should_inject_error m cmd d err = ((inject, err'), m')"
  shows "should_inject_error h d s cmd c err =
     ((inject, err'),
      (if inject \<and> err' = ENGINE_EWOULDBLOCK \<and> add_to_pending_io_ops m'
       then schedule_notification
              (s\<lparr>connection_map := AList.update (get_connection_id h c) (c, m') (connection_map s)\<rparr>) c
       else s\<lparr>connection_map := AList.update (get_connection_id h c) (c, m') (connection_map s)\<rparr>))"
  unfolding should_inject_error_def using assms by (simp add: Let_def)

lemma gate_matched:
  assumes "\<not> is_connection_suspended s c"
    and "map_of (connection_map s) (get_connection_id h c) = Some (c, m)"
    and "FaultInjectMode_should_inject_error m cmd d err = (r, m')"
  shows "fst (should_inject_error h d s cmd c err) = r"
    and "map_of (connection_map (snd (should_inject_error h d s cmd c err))) (get_connection_id h c)
           = Some (c, m')"
    and "suspended_map (snd (should_inject_error h d s cmd c err)) = suspended_map s"
proof -
  obtain inject err' where r: "r = (inject, err')" by (cases r)
  note eq = gate_matched_eq[OF assms(1,2) assms(3)[unfolded r]]
  show "fst (should_inject_error h d s cmd c err) = r" by (simp add: eq r)
  show "map_of (connection_map (snd (should_inject_error h d s cmd c err))) (get_connection_id h c)
           = Some (c, m')"
    by (simp add: eq schedule_notification_def update_conv')
  show "suspended_map (snd (should_inject_error h d s cmd c err)) = suspended_map s"
    by (simp add: eq schedule_notification_def)
qed


subsection \<open>Runs of the gate and of one injector\<close>

lemma mode_calls_Cons:
  "mode_calls m ((cmd, d) # rest) =
     (fst (FaultInjectMode_should_inject_error m cmd d ENGINE_SUCCESS)
        # fst (mode_calls (snd (FaultInjectMode_should_inject_error m cmd d ENGINE_SUCCESS)) rest),
      snd (mode_calls (snd (FaultInjectMode_should_inject_error m cmd d ENGINE_SUCCESS)) rest))"
  by (simp split: prod.splits)

lemma gate_calls_Cons:
  "gate_calls h s c ((cmd, d) # rest) =
     (fst (should_inject_error h d s cmd c ENGINE_SUCCESS)
        # fst (gate_calls h (snd (should_inject_error h d s cmd c ENGINE_SUCCESS)) c rest),
      snd (gate_calls h (snd (should_inject_error h d s cmd c ENGINE_SUCCESS)) c rest))"
  by (simp split: prod.splits)

lemma gate_calls_mode_calls:
  assumes "\<not> is_connection_suspended s c"
    and "map_of (connection_map s) (get_connection_id h c) = Some (c, m)"
  shows "fst (gate_calls h s c cs) = fst (mode_calls m cs)
       \<and> map_of (connection_map (snd (gate_calls h s c cs))) (get_connection_id h c)
           = Some (c, snd (mode_calls m cs))
       \<and> suspended_map (snd (gate_calls h s c cs)) = suspended_map s"
  using assms
proof (induction cs arbitrary: s m)
  case Nil
  then show ?case by simp
next
  case (Cons x cs)
  obtain cmd d where x: "x = (cmd, d)" by (cases x)
  let ?f = "FaultInjectMode_should_inject_error m cmd d ENGINE_SUCCESS"
  let ?g = "should_inject_error h d s cmd c ENGINE_SUCCESS"
  have f: "?f = (fst ?f, snd ?f)" by simp
  from gate_matched[OF Cons.prems f]
  have r: "fst ?g = fst ?f"
    and e: "map_of (connection_map (snd ?g)) (get_connection_id h c) = Some (c, snd ?f)"
    and u: "suspended_map (snd ?g) = suspended_map s" by simp_all
  from u Cons.prems(1) have ns: "\<not> is_connection_suspended (snd ?g) c"
    by (simp add: is_connection_suspended_def)
  from Cons.IH[OF ns e] show ?case
    unfolding x gate_calls_Cons mode_calls_Cons by (simp add: r u)
qed

lemma nextn_calls:
  "fst (mode_calls (ErrOnNextN e n) cs) =
     replicate (min (unat n) (length cs)) (True, e)
     @ replicate (length cs - unat n) (False, ENGINE_SUCCESS)"
proof (induction cs arbitrary: n)
  case Nil
  then show ?case by simp
next
  case (Cons x cs)
  obtain cmd d where x: "x = (cmd, d)" by (cases x)
  show ?case
  proof (cases "n = 0")
    case True
    with Cons.IH[of 0] show ?thesis unfolding x mode_calls_Cons by simp
  next
    case False
    then have pos: "0 < n" by (simp add: word_greater_zero_iff)
    from False have u: "unat n = Suc (unat (n - 1))"
      by (metis Suc_pred' unat_gt_0 unat_minus_one)
    from Cons.IH[of "n - 1"] show ?thesis
      unfolding x mode_calls_Cons by (simp add: pos u)
  qed
qed

lemma first_calls:
  "fst (mode_calls (ErrOnFirst e p) cs) =
     map (\<lambda>(p, k). (p \<noteq> k, if p \<noteq> k then e else ENGINE_SUCCESS))
       (zip (p # map fst cs) (map fst cs))"
proof (induction cs arbitrary: p)
  case Nil
  then show ?case by simp
next
  case (Cons x cs)
  obtain cmd d where x: "x = (cmd, d)" by (cases x)
  from Cons.IH[of cmd] show ?case
    unfolding x mode_calls_Cons by (simp add: Let_def)
qed

lemma seq_calls_nth:
  "i < length cs \<Longrightarrow> unat pos \<le> 32 \<Longrightarrow>
   fst (mode_calls (ErrSequence e msk pos) cs) ! i =
     (if unat pos + i < 32 \<and> bit msk (unat pos + i) then (True, e) else (False, ENGINE_SUCCESS))"
proof (induction cs arbitrary: pos i)
  case Nil
  then show ?case by simp
next
  case (Cons x cs)
  obtain cmd d where x: "x = (cmd, d)" by (cases x)
  show ?case
  proof (cases "pos < 32")
    case True
    then have lt: "unat pos < 32" by (simp add: word_less_nat_alt)
    then have up: "unat (pos + 1) = Suc (unat pos)"
      by (simp add: unat_word_ariths)
    show ?thesis
    proof (cases i)
      case 0
      then show ?thesis unfolding x mode_calls_Cons
        using True lt by (simp add: Let_def and_exp_eq_0_iff_not_bit)
    next
      case (Suc j)
      with Cons.prems have j: "j < length cs" by simp
      from lt up have le: "unat (pos + 1) \<le> 32" by simp
      from Cons.IH[OF j le] show ?thesis unfolding x mode_calls_Cons
        using True by (simp add: Suc up Let_def)
    qed
  next
    case False
    with Cons.prems have eq: "unat pos = 32" by (simp add: word_less_nat_alt)
    show ?thesis
    proof (cases i)
      case 0
      then show ?thesis unfolding x mode_calls_Cons using False eq by simp
    next
      case (Suc j)
      with Cons.prems have j: "j < length cs" by simp
      from Cons.IH[OF j Cons.prems(2)] show ?thesis unfolding x mode_calls_Cons
        using False eq by (simp add: Suc)
    qed
  qed
qed

lemma length_mode_calls [simp]: "length (fst (mode_calls m cs)) = length cs"
proof (induction cs arbitrary: m)
  case Nil
  then show ?case by simp
next
  case (Cons x cs)
  then show ?case by (cases x) (simp add: mode_calls_Cons del: mode_calls.simps)
qed

lemma seq_calls:
  "fst (mode_calls (ErrSequence e msk 0) cs) =
     map (\<lambda>i. if i < 32 \<and> bit msk i then (True, e) else (False, ENGINE_SUCCESS)) [0..<length cs]"
  by (rule nth_equalityI) (simp_all add: seq_calls_nth)


subsection \<open>The engine operations\<close>

lemmas wrapper_defs =
  allocate_def allocate_ex_def remove_op_def get_def get_if_def get_and_touch_def get_locked_def
  unlock_def get_meta_def store_def store_if_def get_stats_def unknown_command_def

lemma call_gate:
  "call h d s c op =
     ((if fst (fst (should_inject_error h d s (cmd_of op) c ENGINE_SUCCESS))
       then Returned (if op = Get_if \<or> op = Get_and_touch then ENGINE_EWOULDBLOCK
                      else snd (fst (should_inject_error h d s (cmd_of op) c ENGINE_SUCCESS)))
       else Forwarded),
      snd (should_inject_error h d s (cmd_of op) c ENGINE_SUCCESS))"
  by (cases op) (simp_all add: wrapper_defs split: prod.splits)

lemma calls_Cons:
  "calls h s c ((op, d) # rest) =
     (fst (call h d s c op) # fst (calls h (snd (call h d s c op)) c rest),
      snd (calls h (snd (call h d s c op)) c rest))"
  by (simp split: prod.splits)

lemma call_matched:
  assumes "\<not> is_connection_suspended s c"
    and "map_of (connection_map s) (get_connection_id h c) = Some (c, m)"
    and "FaultInjectMode_should_inject_error m (cmd_of op) d ENGINE_SUCCESS = ((inject, err), m')"
  shows "fst (call h d s c op) =
           (if inject
            then Returned (if op = Get_if \<or> op = Get_and_touch then ENGINE_EWOULDBLOCK else err)
            else Forwarded)"
    and "map_of (connection_map (snd (call h d s c op))) (get_connection_id h c) = Some (c, m')"
    and "\<not> is_connection_suspended (snd (call h d s c op)) c"
proof -
  note g = gate_matched[OF assms]
  show "fst (call h d s c op) =
           (if inject
            then Returned (if op = Get_if \<or> op = Get_and_touch then ENGINE_EWOULDBLOCK else err)
            else Forwarded)"
    by (simp add: call_gate g(1))
  show "map_of (connection_map (snd (call h d s c op))) (get_connection_id h c) = Some (c, m')"
    by (simp add: call_gate g(2))
  show "\<not> is_connection_suspended (snd (call h d s c op)) c"
    using assms(1) by (simp add: call_gate is_connection_suspended_def g(3))
qed

lemma call_matched_same:
  assumes "\<not> is_connection_suspended s c"
    and "map_of (connection_map s) (get_connection_id h c) = Some (c, m)"
    and "FaultInjectMode_should_inject_error m (cmd_of op) d ENGINE_SUCCESS = ((False, err), m)"
  shows "call h d s c op = (Forwarded, s)"
  by (simp add: call_gate gate_matched_eq[OF assms] update_triv[OF assms(2)])

lemma length_calls [simp]: "length (fst (calls h s c ops)) = length ops"
proof (induction ops arbitrary: s)
  case Nil
  then show ?case by simp
next
  case (Cons x ops)
  then show ?case by (cases x) (simp add: calls_Cons del: calls.simps)
qed

lemma nextn_outcomes:
  assumes "\<not> is_connection_suspended s c"
    and "map_of (connection_map s) (get_connection_id h c) = Some (c, ErrOnNextN e n)"
  shows "fst (calls h s c ops) =
           map (\<lambda>x. Returned (if fst x = Get_if \<or> fst x = Get_and_touch
                                then ENGINE_EWOULDBLOCK else e))
             (take (unat n) ops)
           @ replicate (length ops - unat n) Forwarded"
  using assms
proof (induction ops arbitrary: s n)
  case Nil
  then show ?case by simp
next
  case (Cons x ops)
  obtain op d where x: "x = (op, d)" by (cases x)
  show ?case
  proof (cases "n = 0")
    case True
    have f: "FaultInjectMode_should_inject_error (ErrOnNextN e n) (cmd_of op) d ENGINE_SUCCESS
               = ((False, ENGINE_SUCCESS), ErrOnNextN e n)"
      using True by simp
    note m = call_matched[OF Cons.prems f]
    from Cons.IH[OF m(3) m(2)] show ?thesis
      unfolding x calls_Cons using True by (simp add: m(1))
  next
    case False
    then have pos: "0 < n" by (simp add: word_greater_zero_iff)
    from False have u: "unat n = Suc (unat (n - 1))"
      by (metis Suc_pred' unat_gt_0 unat_minus_one)
    have f: "FaultInjectMode_should_inject_error (ErrOnNextN e n) (cmd_of op) d ENGINE_SUCCESS
               = ((True, e), ErrOnNextN e (n - 1))"
      using pos by simp
    note m = call_matched[OF Cons.prems f]
    from Cons.IH[OF m(3) m(2)] show ?thesis
      unfolding x calls_Cons by (simp add: m(1) u)
  qed
qed

subsection \<open>The suspension map\<close>

text \<open>
  The keys of a \<^verbatim>\<open>std::map\<close> are distinct; \<open>suspend\<close> and \<open>resume\<close> keep the
  association list so.
\<close>

lemma suspended_in_map_of:
  "distinct (map fst m) \<Longrightarrow> suspended_in m c \<longleftrightarrow> (\<exists>t. map_of m t = Some c)"
  by (force simp: suspended_in_iff dest: map_of_SomeD)

lemma suspend_keeps_distinct:
  "distinct (map fst (suspended_map s)) \<Longrightarrow>
   distinct (map fst (suspended_map (snd (suspend s c t))))"
  by (simp add: suspend_def distinct_update split: option.splits)

lemma resume_keeps_distinct:
  "distinct (map fst (suspended_map s)) \<Longrightarrow>
   distinct (map fst (suspended_map (snd (resume s t))))"
  by (simp add: resume_def schedule_notification_def distinct_delete split: option.splits)

lemma calls_suspended:
  "is_connection_suspended s c \<Longrightarrow> calls h s c ops = (replicate (length ops) (Returned ENGINE_EWOULDBLOCK), s)"
proof (induction ops)
  case Nil
  then show ?case by simp
next
  case (Cons x ops)
  obtain op d where x: "x = (op, d)" by (cases x)
  from Cons show ?case unfolding x calls_Cons
    by (simp add: call_gate gate_suspended)
qed

subsection \<open>ErrOnFirst over a run of operations\<close>

lemma first_forwarded:
  assumes "\<not> is_connection_suspended s c"
    and "map_of (connection_map s) (get_connection_id h c) = Some (c, ErrOnFirst e p)"
  shows "map (\<lambda>r. r = Forwarded) (fst (calls h s c ops)) =
           map (\<lambda>(p, k). p = k)
             (zip (p # map (\<lambda>x. cmd_of (fst x)) ops) (map (\<lambda>x. cmd_of (fst x)) ops))"
  using assms
proof (induction ops arbitrary: s p)
  case Nil
  then show ?case by simp
next
  case (Cons x ops)
  obtain op d where x: "x = (op, d)" by (cases x)
  have f: "FaultInjectMode_should_inject_error (ErrOnFirst e p) (cmd_of op) d ENGINE_SUCCESS
             = ((p \<noteq> cmd_of op, if p \<noteq> cmd_of op then e else ENGINE_SUCCESS),
                ErrOnFirst e (cmd_of op))"
    by (simp add: Let_def)
  note m = call_matched[OF Cons.prems f]
  from Cons.IH[OF m(3) m(2)] show ?case
    unfolding x calls_Cons by (simp add: m(1))
qed

subsection \<open>CASMismatch and ErrRandom\<close>

lemma cas_call_other_kind:
  assumes "\<not> is_connection_suspended s c"
    and "map_of (connection_map s) (get_connection_id h c) = Some (c, CASMismatch e k)"
    and "cmd_of op \<noteq> CAS"
  shows "call h d s c op = (Forwarded, s)"
proof -
  have f: "FaultInjectMode_should_inject_error (CASMismatch e k) (cmd_of op) d ENGINE_SUCCESS
             = ((False, ENGINE_SUCCESS), CASMismatch e k)"
    using assms(3) by simp
  show ?thesis by (rule call_matched_same[OF assms(1,2) f])
qed

lemma cmd_CAS_not_get_if: "cmd_of op = CAS \<Longrightarrow> \<not> (op = Get_if \<or> op = Get_and_touch)"
  by (cases op) simp_all

lemma cas_call_CAS:
  assumes "\<not> is_connection_suspended s c"
    and "map_of (connection_map s) (get_connection_id h c) = Some (c, CASMismatch e k)"
    and "cmd_of op = CAS"
  shows "fst (call h d s c op) = (if 0 < k then Returned e else Forwarded)"
    and "map_of (connection_map (snd (call h d s c op))) (get_connection_id h c)
           = Some (c, CASMismatch e (if 0 < k then k - 1 else k))"
    and "\<not> is_connection_suspended (snd (call h d s c op)) c"
proof -
  have f: "FaultInjectMode_should_inject_error (CASMismatch e k) (cmd_of op) d ENGINE_SUCCESS
             = ((0 < k, if 0 < k then e else ENGINE_SUCCESS),
                CASMismatch e (if 0 < k then k - 1 else k))"
    using assms(3) by simp
  note m = call_matched[OF assms(1,2) f]
  from m(1) cmd_CAS_not_get_if[OF assms(3)]
  show "fst (call h d s c op) = (if 0 < k then Returned e else Forwarded)" by simp
  show "map_of (connection_map (snd (call h d s c op))) (get_connection_id h c)
           = Some (c, CASMismatch e (if 0 < k then k - 1 else k))" by (rule m(2))
  show "\<not> is_connection_suspended (snd (call h d s c op)) c" by (rule m(3))
qed

lemma cas_run_entry:
  assumes "\<not> is_connection_suspended s c"
    and "map_of (connection_map s) (get_connection_id h c) = Some (c, CASMismatch e k)"
  shows "\<not> is_connection_suspended (snd (calls h s c ops)) c
       \<and> (\<exists>k'. map_of (connection_map (snd (calls h s c ops))) (get_connection_id h c)
                  = Some (c, CASMismatch e k'))"
  using assms
proof (induction ops arbitrary: s k)
  case Nil
  then show ?case by simp
next
  case (Cons x ops)
  obtain op d where x: "x = (op, d)" by (cases x)
  show ?case
  proof (cases "cmd_of op = CAS")
    case True
    note m = cas_call_CAS[OF Cons.prems True, of d]
    from Cons.IH[OF m(3) m(2)] show ?thesis unfolding x calls_Cons by simp
  next
    case False
    note m = cas_call_other_kind[OF Cons.prems False, of d]
    from Cons.IH[OF Cons.prems] show ?thesis unfolding x calls_Cons by (simp add: m)
  qed
qed

lemma word_pred_unat: "(k :: 32 word) \<noteq> 0 \<Longrightarrow> unat k = Suc (unat (k - 1))"
  by (metis Suc_pred' unat_gt_0 unat_minus_one)

lemma cas_run:
  assumes "\<not> is_connection_suspended s c"
    and "map_of (connection_map s) (get_connection_id h c) = Some (c, CASMismatch e k)"
  shows "map snd (filter (\<lambda>(x, r). cmd_of (fst x) = CAS) (zip ops (fst (calls h s c ops)))) =
           replicate (min (unat k) (length (filter (\<lambda>x. cmd_of (fst x) = CAS) ops))) (Returned e)
           @ replicate (length (filter (\<lambda>x. cmd_of (fst x) = CAS) ops) - unat k) Forwarded"
  using assms
proof (induction ops arbitrary: s k)
  case Nil
  then show ?case by simp
next
  case (Cons x ops)
  obtain op d where x: "x = (op, d)" by (cases x)
  show ?case
  proof (cases "cmd_of op = CAS")
    case True
    note m = cas_call_CAS[OF Cons.prems True, of d]
    show ?thesis
    proof (cases "k = 0")
      case k0: True
      from Cons.IH[OF m(3) m(2)] show ?thesis
        unfolding x calls_Cons using True k0 by (simp add: m(1))
    next
      case False
      then have pos: "0 < k" by (simp add: word_greater_zero_iff)
      from Cons.IH[OF m(3) m(2)] show ?thesis
        unfolding x calls_Cons using True pos by (simp add: m(1) word_pred_unat[OF False])
    qed
  next
    case False
    note m = cas_call_other_kind[OF Cons.prems False, of d]
    from Cons.IH[OF Cons.prems] show ?thesis
      unfolding x calls_Cons using False by (simp add: m)
  qed
qed

lemma nextn_run_CAS:
  assumes "\<not> is_connection_suspended s c"
    and "map_of (connection_map s) (get_connection_id h c) = Some (c, ErrOnNextN e k)"
    and "\<forall>x\<in>set ops. cmd_of (fst x) = CAS"
  shows "fst (calls h s c ops) =
           replicate (min (unat k) (length ops)) (Returned e)
           @ replicate (length ops - unat k) Forwarded"
  using assms
proof (induction ops arbitrary: s k)
  case Nil
  then show ?case by simp
next
  case (Cons x ops)
  obtain op d where x: "x = (op, d)" by (cases x)
  from Cons.prems(3) have cas: "cmd_of op = CAS" and rest: "\<forall>x\<in>set ops. cmd_of (fst x) = CAS"
    by (simp_all add: x)
  note ng = cmd_CAS_not_get_if[OF cas]
  show ?case
  proof (cases "k = 0")
    case True
    have f: "FaultInjectMode_should_inject_error (ErrOnNextN e k) (cmd_of op) d ENGINE_SUCCESS
               = ((False, ENGINE_SUCCESS), ErrOnNextN e k)"
      using True by simp
    note m = call_matched[OF Cons.prems(1,2) f]
    from Cons.IH[OF m(3) m(2) rest] show ?thesis
      unfolding x calls_Cons using True by (simp add: m(1))
  next
    case False
    then have pos: "0 < k" by (simp add: word_greater_zero_iff)
    have f: "FaultInjectMode_should_inject_error (ErrOnNextN e k) (cmd_of op) d ENGINE_SUCCESS
               = ((True, e), ErrOnNextN e (k - 1))"
      using pos by simp
    note m = call_matched[OF Cons.prems(1,2) f]
    from Cons.IH[OF m(3) m(2) rest] ng show ?thesis
      unfolding x calls_Cons by (simp add: m(1) word_pred_unat[OF False])
  qed
qed


lemma random_draws:
  assumes "p \<le> (100 :: 32 word)"
  shows "{d \<in> {1..100::nat}. (word_of_nat d :: 32 word) < p} = {1..<unat p}"
proof -
  have "((word_of_nat d :: 32 word) < p) = (d < unat p)" if "d \<le> 100" for d
  proof -
    from that have "unat (word_of_nat d :: 32 word) = d"
      by (simp add: unat_of_nat)
    then show ?thesis by (simp add: word_less_nat_alt)
  qed
  moreover from assms have "unat p \<le> 100" by (simp add: word_le_nat_alt)
  ultimately show ?thesis by (auto simp: Suc_le_eq)
qed

subsection \<open>Steps of the synthetic stream\<close>

lemma steps_Suc:
  "steps ret s c (Suc k) =
     (fst (step ret s c) # fst (steps ret (snd (step ret s c)) c k),
      snd (steps ret (snd (step ret s c)) c k))"
  by (simp split: prod.splits)

lemma steps_started:
  assumes "map_of (dcp_stream s) c = Some (True, n)"
  shows "fst (steps ret s c k) =
           replicate (min (unat n) k) (Some dcp_mutation, Returned ret)
           @ replicate (k - unat n) (None, Returned ENGINE_EWOULDBLOCK)
       \<and> map_of (dcp_stream (snd (steps ret s c k))) c
           = Some (True, n - word_of_nat (min (unat n) k))"
  using assms
proof (induction k arbitrary: s n)
  case 0
  then show ?case by simp
next
  case (Suc k)
  show ?case
  proof (cases "n = 0")
    case True
    with Suc.prems have st: "step ret s c = ((None, Returned ENGINE_EWOULDBLOCK), s)"
      by (simp add: step_def)
    from Suc.IH[OF Suc.prems] True show ?thesis
      unfolding steps_Suc st by simp
  next
    case False
    then have pos: "0 < n" by (simp add: word_greater_zero_iff)
    from False have u: "unat n = Suc (unat (n - 1))"
      by (metis Suc_pred' unat_gt_0 unat_minus_one)
    from Suc.prems pos
    have st: "step ret s c =
        ((Some dcp_mutation, Returned ret),
         s\<lparr>dcp_stream := AList.update c (True, n - 1) (dcp_stream s)\<rparr>)"
      by (simp add: step_def)
    have e: "map_of (dcp_stream (s\<lparr>dcp_stream := AList.update c (True, n - 1) (dcp_stream s)\<rparr>)) c
               = Some (True, n - 1)"
      by (simp add: update_conv')
    from Suc.IH[OF e] show ?thesis
      unfolding steps_Suc st by (simp add: u)
  qed
qed

section \<open>The claims\<close>

subsection \<open>ErrOnNextN\<close>

text \<open>
  Claim C2, against the code. With \<open>ErrOnNextN(n)\<close> installed for a connection whose
  cookie is not suspended, the gate decides to inject, with the injector's error in
  \<open>err\<close>, on exactly the first \<open>n\<close> calls and to pass through on every later call.
  Of the engine operations issued, exactly the first \<open>n\<close> are answered by the shim and
  every later one is forwarded to the wrapped engine; the answer is the injected error,
  except from \<^verbatim>\<open>get_if\<close> and \<^verbatim>\<open>get_and_touch\<close>, which answer would-block whatever
  error was injected.
\<close>

theorem ErrOnNextN_first_n_then_pass:
  assumes "\<not> is_connection_suspended s c"
    and "map_of (connection_map s) (get_connection_id h c) = Some (c, new_ErrOnNextN e n)"
  shows "fst (gate_calls h s c cs) =
           replicate (min (unat n) (length cs)) (True, e)
           @ replicate (length cs - unat n) (False, ENGINE_SUCCESS)
       \<and> fst (calls h s c ops) =
           map (\<lambda>x. Returned (if fst x = Get_if \<or> fst x = Get_and_touch
                                then ENGINE_EWOULDBLOCK else e))
             (take (unat n) ops)
           @ replicate (length ops - unat n) Forwarded"
proof -
  from assms(2) have e: "map_of (connection_map s) (get_connection_id h c) = Some (c, ErrOnNextN e n)"
    by (simp add: new_ErrOnNextN_def)
  from gate_calls_mode_calls[OF assms(1) e, of cs] nextn_calls[of e n cs]
  have "fst (gate_calls h s c cs) =
          replicate (min (unat n) (length cs)) (True, e)
          @ replicate (length cs - unat n) (False, ENGINE_SUCCESS)"
    by simp
  with nextn_outcomes[OF assms(1) e, of ops] show ?thesis by simp
qed

theorem ErrOnNextN_first_n_then_pass_witness:
  "\<not> is_connection_suspended
       (snd (unknown_command example_host 0 (new_EWB_Engine True) 5
               (EwouldblockCtl Next_N 2 ENGINE_KEY_ENOENT []))) 5
   \<and> map_of (connection_map
         (snd (unknown_command example_host 0 (new_EWB_Engine True) 5
                 (EwouldblockCtl Next_N 2 ENGINE_KEY_ENOENT []))))
       (get_connection_id example_host 5) = Some (5, new_ErrOnNextN ENGINE_KEY_ENOENT 2)
   \<and> fst (gate_calls example_host
         (snd (unknown_command example_host 0 (new_EWB_Engine True) 5
                 (EwouldblockCtl Next_N 2 ENGINE_KEY_ENOENT [])))
         5 [(GET, 0), (GET, 0), (GET, 0)])
       = [(True, ENGINE_KEY_ENOENT), (True, ENGINE_KEY_ENOENT), (False, ENGINE_SUCCESS)]
   \<and> fst (calls example_host
         (snd (unknown_command example_host 0 (new_EWB_Engine True) 5
                 (EwouldblockCtl Next_N 2 ENGINE_KEY_ENOENT [])))
         5 [(Get, 0), (Get_if, 0), (Get, 0)])
       = [Returned ENGINE_KEY_ENOENT, Returned ENGINE_EWOULDBLOCK, Forwarded]"
proof -
  let ?s = "snd (unknown_command example_host 0 (new_EWB_Engine True) 5
                   (EwouldblockCtl Next_N 2 ENGINE_KEY_ENOENT []))"
  have a: "\<not> is_connection_suspended ?s 5"
    by (simp add: unknown_command_def new_EWB_Engine_def is_connection_suspended_def)
  have b: "map_of (connection_map ?s) (get_connection_id example_host 5)
             = Some (5, new_ErrOnNextN ENGINE_KEY_ENOENT 2)"
    by (simp add: unknown_command_def new_EWB_Engine_def example_host_def)
  have n: "unat (2::32 word) = 2" by simp
  have r1: "replicate (min (unat (2::32 word)) (length [(GET, 0::32 word), (GET, 0), (GET, 0)]))
              (True, ENGINE_KEY_ENOENT)
            @ replicate (length [(GET, 0::32 word), (GET, 0), (GET, 0)] - unat (2::32 word))
                (False, ENGINE_SUCCESS)
            = [(True, ENGINE_KEY_ENOENT), (True, ENGINE_KEY_ENOENT), (False, ENGINE_SUCCESS)]"
    unfolding n by (simp add: numeral_2_eq_2)
  have r2: "map (\<lambda>x. Returned (if fst x = Get_if \<or> fst x = Get_and_touch
                                 then ENGINE_EWOULDBLOCK else ENGINE_KEY_ENOENT))
              (take (unat (2::32 word)) [(Get, 0::32 word), (Get_if, 0), (Get, 0)])
            @ replicate (length [(Get, 0::32 word), (Get_if, 0), (Get, 0)] - unat (2::32 word))
                Forwarded
            = [Returned ENGINE_KEY_ENOENT, Returned ENGINE_EWOULDBLOCK, Forwarded]"
    unfolding n by (simp add: numeral_2_eq_2)
  note t = ErrOnNextN_first_n_then_pass[OF a b,
      of "[(GET, 0), (GET, 0), (GET, 0)]" "[(Get, 0), (Get_if, 0), (Get, 0)]"]
  from t a b show ?thesis unfolding r1 r2 by blast
qed

subsection \<open>Suspension\<close>

text \<open>
  Claim C1. When a token maps to a cookie, the cookie is suspended; every gated engine
  operation on it returns would-block and leaves the state, so the queue of pending
  notifications, as it was; resuming the token removes the token's entry and appends
  exactly that cookie to the queue. With the keys of the map distinct, as in a
  \<^verbatim>\<open>std::map\<close>, a cookie is suspended exactly when some token maps to it.
\<close>

theorem suspended_cookie_would_block:
  assumes "distinct (map fst (suspended_map s))"
    and "map_of (suspended_map s) t = Some c"
  shows "is_connection_suspended s c
       \<and> call h d s c op = (Returned ENGINE_EWOULDBLOCK, s)
       \<and> pending_io_ops (snd (call h d s c op)) = pending_io_ops s
       \<and> resume s t =
           (True, s\<lparr>suspended_map := AList.delete t (suspended_map s),
                    pending_io_ops := pending_io_ops s @ [c]\<rparr>)
       \<and> map_of (suspended_map (snd (resume s t))) t = None
       \<and> pending_io_ops (snd (resume s t)) = pending_io_ops s @ [c]
       \<and> (is_connection_suspended s c' \<longleftrightarrow> (\<exists>t'. map_of (suspended_map s) t' = Some c'))"
proof -
  from assms(2) have "(t, c) \<in> set (suspended_map s)" by (rule map_of_SomeD)
  then have "c \<in> snd ` set (suspended_map s)" by force
  then have susp: "is_connection_suspended s c"
    by (simp add: is_connection_suspended_def suspended_in_iff)
  have op: "call h d s c op = (Returned ENGINE_EWOULDBLOCK, s)"
    by (simp add: call_gate gate_suspended[OF susp])
  have res: "resume s t =
           (True, s\<lparr>suspended_map := AList.delete t (suspended_map s),
                    pending_io_ops := pending_io_ops s @ [c]\<rparr>)"
    using assms(2) by (simp add: resume_def schedule_notification_def)
  have iff: "is_connection_suspended s c' \<longleftrightarrow> (\<exists>t'. map_of (suspended_map s) t' = Some c')"
    using assms(1) by (simp add: is_connection_suspended_def suspended_in_map_of)
  show ?thesis using susp iff by (simp add: op res delete_conv')
qed

theorem suspended_cookie_would_block_witness:
  "distinct (map fst (suspended_map
       (snd (unknown_command example_host 0 (new_EWB_Engine True) 5
               (EwouldblockCtl Suspend 7 ENGINE_SUCCESS [])))))
   \<and> map_of (suspended_map
         (snd (unknown_command example_host 0 (new_EWB_Engine True) 5
                 (EwouldblockCtl Suspend 7 ENGINE_SUCCESS [])))) 7 = Some 5
   \<and> call example_host 0
         (snd (unknown_command example_host 0 (new_EWB_Engine True) 5
                 (EwouldblockCtl Suspend 7 ENGINE_SUCCESS []))) 5 Get
       = (Returned ENGINE_EWOULDBLOCK,
          snd (unknown_command example_host 0 (new_EWB_Engine True) 5
                 (EwouldblockCtl Suspend 7 ENGINE_SUCCESS [])))
   \<and> map_of (suspended_map (snd (resume
         (snd (unknown_command example_host 0 (new_EWB_Engine True) 5
                 (EwouldblockCtl Suspend 7 ENGINE_SUCCESS []))) 7))) 7 = None
   \<and> pending_io_ops (snd (resume
         (snd (unknown_command example_host 0 (new_EWB_Engine True) 5
                 (EwouldblockCtl Suspend 7 ENGINE_SUCCESS []))) 7)) = [5]"
proof -
  let ?s = "snd (unknown_command example_host 0 (new_EWB_Engine True) 5
                   (EwouldblockCtl Suspend 7 ENGINE_SUCCESS []))"
  have s: "?s = (new_EWB_Engine True)\<lparr>suspended_map := [(7, 5)]\<rparr>"
    by (simp add: unknown_command_def handleSuspend_def suspend_def new_EWB_Engine_def)
  have a: "distinct (map fst (suspended_map ?s))" unfolding s by simp
  have b: "map_of (suspended_map ?s) 7 = Some 5" unfolding s by simp
  have p: "pending_io_ops ?s = []" unfolding s by (simp add: new_EWB_Engine_def)
  from suspended_cookie_would_block[OF a b, of example_host 0 Get 5] a b
  show ?thesis unfolding p append_Nil by blast
qed

text \<open>
  Claim C10. A gated operation on a suspended cookie returns before the registry is
  read: the whole state is as before the call, so the connection map and the installed
  injector's fields are untouched and no entry is evicted, also over a run of such
  operations; a later resume therefore acts as if they had not been issued.
\<close>

theorem suspended_gate_frame:
  assumes "is_connection_suspended s c"
  shows "should_inject_error h d s cmd c err = ((True, ENGINE_EWOULDBLOCK), s)
       \<and> snd (call h d s c op) = s
       \<and> snd (calls h s c ops) = s
       \<and> connection_map (snd (calls h s c ops)) = connection_map s
       \<and> resume (snd (calls h s c ops)) t = resume s t"
  by (simp add: gate_suspended[OF assms] call_gate calls_suspended[OF assms])

theorem suspended_gate_frame_witness:
  "is_connection_suspended
       (snd (unknown_command example_host 0
          (snd (unknown_command example_host 0 (new_EWB_Engine True) 5
                  (EwouldblockCtl Next_N 2 ENGINE_EWOULDBLOCK [])))
          18446744073709551621 (EwouldblockCtl Suspend 7 ENGINE_SUCCESS []))) 18446744073709551621
   \<and> connection_map (snd (calls example_host
         (snd (unknown_command example_host 0
            (snd (unknown_command example_host 0 (new_EWB_Engine True) 5
                    (EwouldblockCtl Next_N 2 ENGINE_EWOULDBLOCK [])))
            18446744073709551621 (EwouldblockCtl Suspend 7 ENGINE_SUCCESS [])))
         18446744073709551621 [(Get, 0), (Store OPERATION_CAS, 0)]))
       = [(5, (5, ErrOnNextN ENGINE_EWOULDBLOCK 2))]"
proof -
  let ?s = "snd (unknown_command example_host 0
          (snd (unknown_command example_host 0 (new_EWB_Engine True) 5
                  (EwouldblockCtl Next_N 2 ENGINE_EWOULDBLOCK [])))
          18446744073709551621 (EwouldblockCtl Suspend 7 ENGINE_SUCCESS []))"
  have a: "is_connection_suspended ?s 18446744073709551621"
    by (simp add: unknown_command_def handleSuspend_def suspend_def new_EWB_Engine_def
          is_connection_suspended_def)
  have b: "connection_map ?s = [(5, (5, ErrOnNextN ENGINE_EWOULDBLOCK 2))]"
    by (simp add: unknown_command_def handleSuspend_def suspend_def new_EWB_Engine_def
          example_host_def new_ErrOnNextN_def)
  from suspended_gate_frame[OF a, of example_host 0 GET ENGINE_SUCCESS Get
      "[(Get, 0), (Store OPERATION_CAS, 0)]" 7] a
  show ?thesis unfolding b by blast
qed


text \<open>
  On the new engine no token is registered; resuming token 7 there returns
  \<^verbatim>\<open>ENGINE_EINVAL\<close> and sends no reply. The code is not \<^verbatim>\<open>ENGINE_KEY_ENOENT\<close>,
  the not-found code claim C7 names.
\<close>

theorem resume_unknown_token_is_EINVAL:
  "fst (unknown_command example_host 0 (new_EWB_Engine True) 5
          (EwouldblockCtl Resume 7 ENGINE_SUCCESS []))
     = (Returned ENGINE_EINVAL, None)
   \<and> fst (handleResume (new_EWB_Engine True) 5 7) = (ENGINE_EINVAL, None)
   \<and> fst (fst (handleResume (new_EWB_Engine True) 5 7)) \<noteq> ENGINE_KEY_ENOENT"
  by (simp add: unknown_command_def handleResume_def resume_def new_EWB_Engine_def)

text \<open>
  Claim C7, as the code has it. The resume control operation on token \<open>t\<close> succeeds when
  a cookie is registered under \<open>t\<close>: the entry is removed, the cookie is appended to the
  queue of notifications and the reply is success. When nothing is registered under \<open>t\<close>
  it returns \<^verbatim>\<open>ENGINE_EINVAL\<close> (invalid argument), sends no reply and leaves the state
  as it was.
\<close>

theorem resume_control_success_or_EINVAL:
  "handleResume s ck t =
     (case map_of (suspended_map s) t of
        Some c \<Rightarrow>
          ((ENGINE_SUCCESS, Some Success),
           s\<lparr>suspended_map := AList.delete t (suspended_map s),
             pending_io_ops := pending_io_ops s @ [c]\<rparr>)
      | None \<Rightarrow> ((ENGINE_EINVAL, None), s))
   \<and> unknown_command h d s ck (EwouldblockCtl Resume t e key) =
     (case map_of (suspended_map s) t of
        Some c \<Rightarrow>
          ((Returned ENGINE_SUCCESS, Some Success),
           s\<lparr>suspended_map := AList.delete t (suspended_map s),
             pending_io_ops := pending_io_ops s @ [c]\<rparr>)
      | None \<Rightarrow> ((Returned ENGINE_EINVAL, None), s))"
  by (simp add: unknown_command_def handleResume_def resume_def schedule_notification_def
        split: option.splits)

theorem resume_control_success_or_EINVAL_witness:
  "unknown_command example_host 0
     (snd (unknown_command example_host 0 (new_EWB_Engine True) 5
             (EwouldblockCtl Suspend 7 ENGINE_SUCCESS [])))
     9 (EwouldblockCtl Resume 7 ENGINE_SUCCESS [])
   = ((Returned ENGINE_SUCCESS, Some Success), (new_EWB_Engine True)\<lparr>pending_io_ops := [5]\<rparr>)
   \<and> unknown_command example_host 0 (new_EWB_Engine True) 9
       (EwouldblockCtl Resume 7 ENGINE_SUCCESS [])
   = ((Returned ENGINE_EINVAL, None), new_EWB_Engine True)"
proof -
  let ?s = "snd (unknown_command example_host 0 (new_EWB_Engine True) 5
                   (EwouldblockCtl Suspend 7 ENGINE_SUCCESS []))"
  have s: "?s = (new_EWB_Engine True)\<lparr>suspended_map := [(7, 5)]\<rparr>"
    by (simp add: unknown_command_def handleSuspend_def suspend_def new_EWB_Engine_def)
  from resume_control_success_or_EINVAL[of ?s 9 7 example_host 0 ENGINE_SUCCESS "[]"]
    resume_control_success_or_EINVAL[of "new_EWB_Engine True" 9 7 example_host 0 ENGINE_SUCCESS "[]"]
  show ?thesis unfolding s by (simp add: new_EWB_Engine_def)
qed

subsection \<open>The registry\<close>

text \<open>
  Claim C8. A gated operation on a cookie that is not suspended, whose connection id has
  an entry that stores another cookie: the gate erases the entry and decides to pass
  through, the operation is forwarded to the wrapped engine, and afterwards the id has no
  entry.
\<close>

theorem stale_entry_evicted:
  assumes "\<not> is_connection_suspended s c"
    and "map_of (connection_map s) (get_connection_id h c) = Some (stored, m)"
    and "stored \<noteq> c"
  shows "should_inject_error h d s cmd c err =
           ((False, err),
            s\<lparr>connection_map := AList.delete (get_connection_id h c) (connection_map s)\<rparr>)
       \<and> call h d s c op =
           (Forwarded,
            s\<lparr>connection_map := AList.delete (get_connection_id h c) (connection_map s)\<rparr>)
       \<and> map_of (connection_map (snd (call h d s c op))) (get_connection_id h c) = None"
  by (simp add: call_gate gate_mismatch[OF assms] delete_conv')

theorem stale_entry_evicted_witness:
  "\<not> is_connection_suspended
       (snd (unknown_command example_host 0 (new_EWB_Engine True) 5
               (EwouldblockCtl Next_N 2 ENGINE_EWOULDBLOCK []))) 18446744073709551621
   \<and> map_of (connection_map
         (snd (unknown_command example_host 0 (new_EWB_Engine True) 5
                 (EwouldblockCtl Next_N 2 ENGINE_EWOULDBLOCK []))))
       (get_connection_id example_host 18446744073709551621)
       = Some (5, ErrOnNextN ENGINE_EWOULDBLOCK 2)
   \<and> (5::nat) \<noteq> 18446744073709551621
   \<and> fst (call example_host 0
         (snd (unknown_command example_host 0 (new_EWB_Engine True) 5
                 (EwouldblockCtl Next_N 2 ENGINE_EWOULDBLOCK [])))
         18446744073709551621 Get) = Forwarded
   \<and> map_of (connection_map (snd (call example_host 0
         (snd (unknown_command example_host 0 (new_EWB_Engine True) 5
                 (EwouldblockCtl Next_N 2 ENGINE_EWOULDBLOCK [])))
         18446744073709551621 Get)))
       (get_connection_id example_host 18446744073709551621) = None"
proof -
  let ?s = "snd (unknown_command example_host 0 (new_EWB_Engine True) 5
                   (EwouldblockCtl Next_N 2 ENGINE_EWOULDBLOCK []))"
  have a: "\<not> is_connection_suspended ?s 18446744073709551621"
    by (simp add: unknown_command_def new_EWB_Engine_def is_connection_suspended_def)
  have b: "map_of (connection_map ?s) (get_connection_id example_host 18446744073709551621)
             = Some (5, ErrOnNextN ENGINE_EWOULDBLOCK 2)"
    by (simp add: unknown_command_def new_EWB_Engine_def example_host_def new_ErrOnNextN_def)
  have c: "(5::nat) \<noteq> 18446744073709551621" by simp
  from stale_entry_evicted[OF a b c, of 0 GET ENGINE_SUCCESS Get] a b c
  show ?thesis by (metis fst_conv)
qed

subsection \<open>ErrOnFirst\<close>

text \<open>
  With \<open>ErrOnFirst\<close> installed, a \<^verbatim>\<open>get\<close>, a \<^verbatim>\<open>store\<close> and a second \<^verbatim>\<open>get\<close>
  are all answered with the injected error: the second \<^verbatim>\<open>get\<close> is of a kind seen
  before, and claim C3 has it pass through.
\<close>

theorem ErrOnFirst_repeats_after_other_kind:
  "fst (calls example_host
          (snd (unknown_command example_host 0 (new_EWB_Engine True) 5
                  (EwouldblockCtl First 0 ENGINE_EWOULDBLOCK [])))
          5 [(Get, 0), (Store OPERATION_OTHER, 0), (Get, 0)])
     = [Returned ENGINE_EWOULDBLOCK, Returned ENGINE_EWOULDBLOCK, Returned ENGINE_EWOULDBLOCK]"
  by (simp add: unknown_command_def new_EWB_Engine_def example_host_def new_ErrOnFirst_def
        get_def store_def should_inject_error_def is_connection_suspended_def
        schedule_notification_def Let_def)


text \<open>
  Claim C3, as the code has it. With \<open>ErrOnFirst(e)\<close> installed for a connection whose
  cookie is not suspended, the gate injects \<open>e\<close> on a call exactly when the kind of the
  call differs from the kind of the call before it (from \<open>NONE\<close> for the first call
  after the install); a call of the same kind as the one before passes through, and of
  the engine operations exactly those are forwarded.
\<close>

theorem ErrOnFirst_injects_on_change_of_kind:
  assumes "\<not> is_connection_suspended s c"
    and "map_of (connection_map s) (get_connection_id h c) = Some (c, new_ErrOnFirst e)"
  shows "fst (gate_calls h s c cs) =
           map (\<lambda>(p, k). (p \<noteq> k, if p \<noteq> k then e else ENGINE_SUCCESS))
             (zip (NONE # map fst cs) (map fst cs))
       \<and> map (\<lambda>r. r = Forwarded) (fst (calls h s c ops)) =
           map (\<lambda>(p, k). p = k)
             (zip (NONE # map (\<lambda>x. cmd_of (fst x)) ops) (map (\<lambda>x. cmd_of (fst x)) ops))"
proof -
  from assms(2) have e: "map_of (connection_map s) (get_connection_id h c) = Some (c, ErrOnFirst e NONE)"
    by (simp add: new_ErrOnFirst_def)
  from gate_calls_mode_calls[OF assms(1) e, of cs] first_calls[of e NONE cs]
  have "fst (gate_calls h s c cs) =
           map (\<lambda>(p, k). (p \<noteq> k, if p \<noteq> k then e else ENGINE_SUCCESS))
             (zip (NONE # map fst cs) (map fst cs))"
    by simp
  with first_forwarded[OF assms(1) e, of ops] show ?thesis by simp
qed

theorem ErrOnFirst_injects_on_change_of_kind_witness:
  "\<not> is_connection_suspended
       (snd (unknown_command example_host 0 (new_EWB_Engine True) 5
               (EwouldblockCtl First 0 ENGINE_EWOULDBLOCK []))) 5
   \<and> map_of (connection_map
         (snd (unknown_command example_host 0 (new_EWB_Engine True) 5
                 (EwouldblockCtl First 0 ENGINE_EWOULDBLOCK []))))
       (get_connection_id example_host 5) = Some (5, new_ErrOnFirst ENGINE_EWOULDBLOCK)
   \<and> fst (gate_calls example_host
         (snd (unknown_command example_host 0 (new_EWB_Engine True) 5
                 (EwouldblockCtl First 0 ENGINE_EWOULDBLOCK [])))
         5 [(GET, 0), (GET, 0), (STORE, 0), (GET, 0)])
       = [(True, ENGINE_EWOULDBLOCK), (False, ENGINE_SUCCESS),
          (True, ENGINE_EWOULDBLOCK), (True, ENGINE_EWOULDBLOCK)]
   \<and> map (\<lambda>r. r = Forwarded)
         (fst (calls example_host
            (snd (unknown_command example_host 0 (new_EWB_Engine True) 5
                    (EwouldblockCtl First 0 ENGINE_EWOULDBLOCK [])))
            5 [(Get, 0), (Get_if, 0), (Store OPERATION_OTHER, 0), (Get, 0)]))
       = [False, True, False, False]"
proof -
  let ?s = "snd (unknown_command example_host 0 (new_EWB_Engine True) 5
                   (EwouldblockCtl First 0 ENGINE_EWOULDBLOCK []))"
  have a: "\<not> is_connection_suspended ?s 5"
    by (simp add: unknown_command_def new_EWB_Engine_def is_connection_suspended_def)
  have b: "map_of (connection_map ?s) (get_connection_id example_host 5)
             = Some (5, new_ErrOnFirst ENGINE_EWOULDBLOCK)"
    by (simp add: unknown_command_def new_EWB_Engine_def example_host_def)
  note t = ErrOnFirst_injects_on_change_of_kind[OF a b,
      of "[(GET, 0), (GET, 0), (STORE, 0), (GET, 0)]"
         "[(Get, 0), (Get_if, 0), (Store OPERATION_OTHER, 0), (Get, 0)]"]
  have r1: "map (\<lambda>(p, k). (p \<noteq> k, if p \<noteq> k then ENGINE_EWOULDBLOCK else ENGINE_SUCCESS))
             (zip (NONE # map fst [(GET, 0::32 word), (GET, 0), (STORE, 0), (GET, 0)])
                  (map fst [(GET, 0::32 word), (GET, 0), (STORE, 0), (GET, 0)]))
            = [(True, ENGINE_EWOULDBLOCK), (False, ENGINE_SUCCESS),
               (True, ENGINE_EWOULDBLOCK), (True, ENGINE_EWOULDBLOCK)]"
    by simp
  have r2: "map (\<lambda>(p, k). p = k)
             (zip (NONE # map (\<lambda>x. cmd_of (fst x))
                     [(Get, 0::32 word), (Get_if, 0), (Store OPERATION_OTHER, 0), (Get, 0)])
                  (map (\<lambda>x. cmd_of (fst x))
                     [(Get, 0::32 word), (Get_if, 0), (Store OPERATION_OTHER, 0), (Get, 0)]))
            = [False, True, False, False]"
    by simp
  from t a b show ?thesis unfolding r1 r2 by blast
qed


subsection \<open>ErrSequence\<close>

text \<open>
  Claim C4. With \<open>ErrSequence(mask)\<close> installed for a connection whose cookie is not
  suspended, the decision of the gate on call number \<open>i + 1\<close> is to inject exactly when
  \<open>i < 32\<close> and bit \<open>i\<close> of the mask is set: the first 32 decisions are the bits of
  the mask from the least significant, and every later call passes through.
\<close>

theorem ErrSequence_follows_mask:
  assumes "\<not> is_connection_suspended s c"
    and "map_of (connection_map s) (get_connection_id h c) = Some (c, new_ErrSequence e msk)"
  shows "fst (gate_calls h s c cs) =
           map (\<lambda>i. if i < 32 \<and> bit msk i then (True, e) else (False, ENGINE_SUCCESS))
             [0..<length cs]"
proof -
  from assms(2) have e: "map_of (connection_map s) (get_connection_id h c) = Some (c, ErrSequence e msk 0)"
    by (simp add: new_ErrSequence_def)
  from gate_calls_mode_calls[OF assms(1) e, of cs] seq_calls[of e msk cs]
  show ?thesis by simp
qed

theorem ErrSequence_follows_mask_witness:
  "\<not> is_connection_suspended
       (snd (unknown_command example_host 0 (new_EWB_Engine True) 5
               (EwouldblockCtl Sequence 22 ENGINE_EWOULDBLOCK []))) 5
   \<and> map_of (connection_map
         (snd (unknown_command example_host 0 (new_EWB_Engine True) 5
                 (EwouldblockCtl Sequence 22 ENGINE_EWOULDBLOCK []))))
       (get_connection_id example_host 5) = Some (5, new_ErrSequence ENGINE_EWOULDBLOCK 22)
   \<and> fst (gate_calls example_host
         (snd (unknown_command example_host 0 (new_EWB_Engine True) 5
                 (EwouldblockCtl Sequence 22 ENGINE_EWOULDBLOCK [])))
         5 [(GET, 0), (GET, 0), (GET, 0), (GET, 0), (GET, 0), (GET, 0)])
       = [(False, ENGINE_SUCCESS), (True, ENGINE_EWOULDBLOCK), (True, ENGINE_EWOULDBLOCK),
          (False, ENGINE_SUCCESS), (True, ENGINE_EWOULDBLOCK), (False, ENGINE_SUCCESS)]"
proof -
  let ?s = "snd (unknown_command example_host 0 (new_EWB_Engine True) 5
                   (EwouldblockCtl Sequence 22 ENGINE_EWOULDBLOCK []))"
  have a: "\<not> is_connection_suspended ?s 5"
    by (simp add: unknown_command_def new_EWB_Engine_def is_connection_suspended_def)
  have b: "map_of (connection_map ?s) (get_connection_id example_host 5)
             = Some (5, new_ErrSequence ENGINE_EWOULDBLOCK 22)"
    by (simp add: unknown_command_def new_EWB_Engine_def example_host_def)
  note t = ErrSequence_follows_mask[OF a b,
      of "[(GET, 0), (GET, 0), (GET, 0), (GET, 0), (GET, 0), (GET, 0)]"]
  have r: "map (\<lambda>i. if i < 32 \<and> bit (22::32 word) i
                      then (True, ENGINE_EWOULDBLOCK) else (False, ENGINE_SUCCESS))
             [0..<length [(GET, 0::32 word), (GET, 0), (GET, 0), (GET, 0), (GET, 0), (GET, 0)]]
           = [(False, ENGINE_SUCCESS), (True, ENGINE_EWOULDBLOCK), (True, ENGINE_EWOULDBLOCK),
              (False, ENGINE_SUCCESS), (True, ENGINE_EWOULDBLOCK), (False, ENGINE_SUCCESS)]"
    by (simp add: upt_rec bit_numeral_simps)
  from t a b show ?thesis unfolding r by blast
qed

subsection \<open>CASMismatch\<close>

text \<open>
  Claim C5. With \<open>CasMismatch(n)\<close> installed for a connection whose cookie is not
  suspended, an operation whose kind is not compare-and-swap, at any point of a run, is
  forwarded and leaves the state, so the injector, as it was. The outcomes of the
  compare-and-swap operations of the run, in order, are the outcomes an engine with
  \<open>ErrOnNextN(n)\<close> and error key-exists gives for those operations alone: key-exists
  for the first \<open>n\<close> of them and forwarded afterwards.
\<close>

theorem CASMismatch_refines_ErrOnNextN_on_CAS:
  assumes "\<not> is_connection_suspended s c"
    and "map_of (connection_map s) (get_connection_id h c) = Some (c, new_CASMismatch n)"
    and "\<not> is_connection_suspended s' c"
    and "map_of (connection_map s') (get_connection_id h c)
           = Some (c, new_ErrOnNextN ENGINE_KEY_EEXISTS n)"
  shows "(\<forall>i<length ops. cmd_of (fst (ops ! i)) \<noteq> CAS \<longrightarrow>
            call h (snd (ops ! i)) (snd (calls h s c (take i ops))) c (fst (ops ! i))
              = (Forwarded, snd (calls h s c (take i ops))))
       \<and> map snd (filter (\<lambda>(x, r). cmd_of (fst x) = CAS) (zip ops (fst (calls h s c ops))))
           = fst (calls h s' c (filter (\<lambda>x. cmd_of (fst x) = CAS) ops))
       \<and> fst (calls h s' c (filter (\<lambda>x. cmd_of (fst x) = CAS) ops))
           = replicate (min (unat n) (length (filter (\<lambda>x. cmd_of (fst x) = CAS) ops)))
               (Returned ENGINE_KEY_EEXISTS)
             @ replicate (length (filter (\<lambda>x. cmd_of (fst x) = CAS) ops) - unat n) Forwarded"
proof -
  from assms(2) have e: "map_of (connection_map s) (get_connection_id h c)
      = Some (c, CASMismatch ENGINE_KEY_EEXISTS n)"
    by (simp add: new_CASMismatch_def)
  from assms(4) have e': "map_of (connection_map s') (get_connection_id h c)
      = Some (c, ErrOnNextN ENGINE_KEY_EEXISTS n)"
    by (simp add: new_ErrOnNextN_def)
  have other: "call h (snd (ops ! i)) (snd (calls h s c (take i ops))) c (fst (ops ! i))
              = (Forwarded, snd (calls h s c (take i ops)))"
    if "i < length ops" and "cmd_of (fst (ops ! i)) \<noteq> CAS" for i
  proof -
    from cas_run_entry[OF assms(1) e, of "take i ops"]
    obtain k' where ns: "\<not> is_connection_suspended (snd (calls h s c (take i ops))) c"
      and en: "map_of (connection_map (snd (calls h s c (take i ops)))) (get_connection_id h c)
                 = Some (c, CASMismatch ENGINE_KEY_EEXISTS k')"
      by blast
    show ?thesis by (rule cas_call_other_kind[OF ns en that(2)])
  qed
  have all: "\<forall>x\<in>set (filter (\<lambda>x. cmd_of (fst x) = CAS) ops). cmd_of (fst x) = CAS" by simp
  note r1 = cas_run[OF assms(1) e, of ops]
  note r2 = nextn_run_CAS[OF assms(3) e' all]
  from other r1 r2 show ?thesis by simp
qed


theorem CASMismatch_refines_ErrOnNextN_on_CAS_witness:
  "\<not> is_connection_suspended
       (snd (unknown_command example_host 0 (new_EWB_Engine True) 5
               (EwouldblockCtl CasMismatch 3 ENGINE_SUCCESS []))) 5
   \<and> map_of (connection_map
         (snd (unknown_command example_host 0 (new_EWB_Engine True) 5
                 (EwouldblockCtl CasMismatch 3 ENGINE_SUCCESS []))))
       (get_connection_id example_host 5) = Some (5, new_CASMismatch 3)
   \<and> \<not> is_connection_suspended
       (snd (unknown_command example_host 0 (new_EWB_Engine True) 5
               (EwouldblockCtl Next_N 3 ENGINE_KEY_EEXISTS []))) 5
   \<and> map_of (connection_map
         (snd (unknown_command example_host 0 (new_EWB_Engine True) 5
                 (EwouldblockCtl Next_N 3 ENGINE_KEY_EEXISTS []))))
       (get_connection_id example_host 5) = Some (5, new_ErrOnNextN ENGINE_KEY_EEXISTS 3)
   \<and> call example_host 0
         (snd (unknown_command example_host 0 (new_EWB_Engine True) 5
                 (EwouldblockCtl CasMismatch 3 ENGINE_SUCCESS []))) 5 (Store OPERATION_OTHER)
       = (Forwarded,
          snd (unknown_command example_host 0 (new_EWB_Engine True) 5
                 (EwouldblockCtl CasMismatch 3 ENGINE_SUCCESS [])))
   \<and> map snd (filter (\<lambda>(x, r). cmd_of (fst x) = CAS)
         (zip [(Store OPERATION_OTHER, 0 :: 32 word), (Store OPERATION_CAS, 0),
               (Store_if OPERATION_CAS, 0), (Store OPERATION_CAS, 0), (Store OPERATION_CAS, 0)]
            (fst (calls example_host
               (snd (unknown_command example_host 0 (new_EWB_Engine True) 5
                       (EwouldblockCtl CasMismatch 3 ENGINE_SUCCESS [])))
               5 [(Store OPERATION_OTHER, 0), (Store OPERATION_CAS, 0), (Store_if OPERATION_CAS, 0),
                  (Store OPERATION_CAS, 0), (Store OPERATION_CAS, 0)]))))
       = [Returned ENGINE_KEY_EEXISTS, Returned ENGINE_KEY_EEXISTS, Returned ENGINE_KEY_EEXISTS,
          Forwarded]"
proof -
  let ?s = "snd (unknown_command example_host 0 (new_EWB_Engine True) 5
                   (EwouldblockCtl CasMismatch 3 ENGINE_SUCCESS []))"
  let ?s' = "snd (unknown_command example_host 0 (new_EWB_Engine True) 5
                    (EwouldblockCtl Next_N 3 ENGINE_KEY_EEXISTS []))"
  let ?ops = "[(Store OPERATION_OTHER, 0 :: 32 word), (Store OPERATION_CAS, 0),
               (Store_if OPERATION_CAS, 0), (Store OPERATION_CAS, 0), (Store OPERATION_CAS, 0)]"
  have a: "\<not> is_connection_suspended ?s 5"
    by (simp add: unknown_command_def new_EWB_Engine_def is_connection_suspended_def)
  have b: "map_of (connection_map ?s) (get_connection_id example_host 5)
             = Some (5, new_CASMismatch 3)"
    by (simp add: unknown_command_def new_EWB_Engine_def example_host_def)
  have a': "\<not> is_connection_suspended ?s' 5"
    by (simp add: unknown_command_def new_EWB_Engine_def is_connection_suspended_def)
  have b': "map_of (connection_map ?s') (get_connection_id example_host 5)
             = Some (5, new_ErrOnNextN ENGINE_KEY_EEXISTS 3)"
    by (simp add: unknown_command_def new_EWB_Engine_def example_host_def)
  note t = CASMismatch_refines_ErrOnNextN_on_CAS[OF a b a' b', of ?ops]
  from t[THEN conjunct1, rule_format, of 0]
  have t1: "call example_host 0 ?s 5 (Store OPERATION_OTHER) = (Forwarded, ?s)"
    by (simp del: call.simps)
  have k: "filter (\<lambda>x. cmd_of (fst x) = CAS) ?ops =
             [(Store OPERATION_CAS, 0), (Store_if OPERATION_CAS, 0), (Store OPERATION_CAS, 0),
              (Store OPERATION_CAS, 0)]"
    by simp
  have n: "unat (3::32 word) = 3" by simp
  have r: "replicate (min (unat (3::32 word))
               (length (filter (\<lambda>x. cmd_of (fst x) = CAS) ?ops))) (Returned ENGINE_KEY_EEXISTS)
             @ replicate (length (filter (\<lambda>x. cmd_of (fst x) = CAS) ?ops) - unat (3::32 word))
                 Forwarded
           = [Returned ENGINE_KEY_EEXISTS, Returned ENGINE_KEY_EEXISTS,
              Returned ENGINE_KEY_EEXISTS, Forwarded]"
    unfolding n by (simp add: numeral_3_eq_3)
  from t[THEN conjunct2]
  have t2: "map snd (filter (\<lambda>(x, r). cmd_of (fst x) = CAS)
               (zip ?ops (fst (calls example_host ?s 5 ?ops))))
            = [Returned ENGINE_KEY_EEXISTS, Returned ENGINE_KEY_EEXISTS,
               Returned ENGINE_KEY_EEXISTS, Forwarded]"
    unfolding r by (elim conjE) (erule trans, assumption)
  from a b a' b' t1 t2 show ?thesis by blast
qed


subsection \<open>ErrRandom\<close>

text \<open>
  Claim C6 says that \<open>p\<close> of the 100 draws inject. The code compares the draw with
  \<open>p\<close> by \<open><\<close>: for every percentage \<open>p\<close> from 1 to 100, the draws from 1 to 100 on
  which \<open>ErrRandom(p)\<close> injects are the \<open>p - 1\<close> draws below \<open>p\<close>. With \<open>p = 100\<close>
  the draw 100 passes through.
\<close>

theorem ErrRandom_injects_on_p_minus_1_draws:
  assumes "1 \<le> p" and "p \<le> 100"
  shows "card {d \<in> {1..100::nat}.
            fst (fst (FaultInjectMode_should_inject_error (new_ErrRandom e p) cmd
                        (word_of_nat d) err))}
           = unat p - 1"
proof -
  have "{d \<in> {1..100::nat}.
            fst (fst (FaultInjectMode_should_inject_error (new_ErrRandom e p) cmd
                        (word_of_nat d) err))}
        = {d \<in> {1..100::nat}. (word_of_nat d :: 32 word) < p}"
    by (auto simp: new_ErrRandom_def)
  then show ?thesis by (simp only: random_draws[OF assms(2)]) simp
qed

theorem ErrRandom_injects_on_p_minus_1_draws_witness:
  "(1 :: 32 word) \<le> 100 \<and> (100 :: 32 word) \<le> 100
   \<and> card {d \<in> {1..100::nat}.
            fst (fst (FaultInjectMode_should_inject_error
                        (new_ErrRandom ENGINE_EWOULDBLOCK 100) GET (word_of_nat d) ENGINE_SUCCESS))}
       = 99
   \<and> FaultInjectMode_should_inject_error (new_ErrRandom ENGINE_EWOULDBLOCK 100) GET 100
         ENGINE_SUCCESS
       = ((False, ENGINE_SUCCESS), ErrRandom ENGINE_EWOULDBLOCK 100)"
proof -
  have a: "(1 :: 32 word) \<le> 100" by simp
  have b: "(100 :: 32 word) \<le> 100" by simp
  have n: "unat (100 :: 32 word) - 1 = 99" by simp
  have c: "FaultInjectMode_should_inject_error (new_ErrRandom ENGINE_EWOULDBLOCK 100) GET 100
         ENGINE_SUCCESS
       = ((False, ENGINE_SUCCESS), ErrRandom ENGINE_EWOULDBLOCK 100)"
    by (simp add: new_ErrRandom_def)
  from ErrRandom_injects_on_p_minus_1_draws[OF a b, of ENGINE_EWOULDBLOCK GET ENGINE_SUCCESS] a b c
  show ?thesis unfolding n by blast
qed

subsection \<open>The synthetic stream\<close>

text \<open>
  Claim C9. A stream opened under a name that starts with \<^verbatim>\<open>ewb_internal\<close> and ends in
  a colon and the count \<open>n\<close> is registered as not started with count \<open>n\<close>. On it, a
  stream request with start sequence 1 replies rollback with rollback sequence 0 and
  leaves the stream not started, and a step before the start returns would-block. A
  stream request with another start sequence marks the stream started and replies
  success; of the steps after it exactly the first \<open>n\<close> hand the canned mutation to the
  host, each taking one off the count, and every later step returns would-block.
\<close>

theorem synthetic_stream_behaviour:
  assumes "take 12 nm = ''ewb_internal''"
    and "rfind_colon nm = Some idx"
    and "stoull (drop (idx + 1) nm) = Inr n"
  shows
    "(let s = eng\<lparr>dcp_stream := AList.update c (False, n) (dcp_stream eng)\<rparr>;
          s' = s\<lparr>dcp_stream := AList.update c (True, n) (dcp_stream s)\<rparr>
      in dcp_open eng c nm = Inr (Returned ENGINE_SUCCESS, s)
       \<and> stream_req s c 1 rb = ((Returned ENGINE_ROLLBACK, 0), s)
       \<and> step ret s c = ((None, Returned ENGINE_EWOULDBLOCK), s)
       \<and> (start \<noteq> 1 \<longrightarrow>
            stream_req s c start rb = ((Returned ENGINE_SUCCESS, rb), s')
          \<and> fst (steps ret s' c k) =
               replicate (min (unat n) k) (Some dcp_mutation, Returned ret)
               @ replicate (k - unat n) (None, Returned ENGINE_EWOULDBLOCK)
          \<and> map_of (dcp_stream (snd (steps ret s' c k))) c
               = Some (True, n - word_of_nat (min (unat n) k))))"
proof -
  define s where "s = eng\<lparr>dcp_stream := AList.update c (False, n) (dcp_stream eng)\<rparr>"
  define s' where "s' = s\<lparr>dcp_stream := AList.update c (True, n) (dcp_stream s)\<rparr>"
  have e: "map_of (dcp_stream s) c = Some (False, n)"
    by (simp add: s_def update_conv')
  have e': "map_of (dcp_stream s') c = Some (True, n)"
    by (simp add: s'_def update_conv')
  have op: "dcp_open eng c nm = Inr (Returned ENGINE_SUCCESS, s)"
    using assms by (simp add: dcp_open_def s_def)
  have rb: "stream_req s c 1 rb = ((Returned ENGINE_ROLLBACK, 0), s)"
    using e by (simp add: stream_req_def)
  have st: "step ret s c = ((None, Returned ENGINE_EWOULDBLOCK), s)"
    using e by (simp add: step_def)
  have rq: "stream_req s c start rb = ((Returned ENGINE_SUCCESS, rb), s')" if "start \<noteq> 1"
    using e that by (simp add: stream_req_def s'_def)
  note run = steps_started[OF e', of ret k]
  from op rb st rq run show ?thesis
    unfolding Let_def s_def[symmetric] s'_def[symmetric] by blast
qed

theorem synthetic_stream_behaviour_witness:
  "take 12 ''ewb_internal:3'' = ''ewb_internal''
   \<and> rfind_colon ''ewb_internal:3'' = Some 12
   \<and> stoull (drop (12 + 1) ''ewb_internal:3'') = Inr 3
   \<and> dcp_open (new_EWB_Engine True) 5 ''ewb_internal:3''
       = Inr (Returned ENGINE_SUCCESS, (new_EWB_Engine True)\<lparr>dcp_stream := [(5, (False, 3))]\<rparr>)
   \<and> stream_req ((new_EWB_Engine True)\<lparr>dcp_stream := [(5, (False, 3))]\<rparr>) 5 1 7
       = ((Returned ENGINE_ROLLBACK, 0), (new_EWB_Engine True)\<lparr>dcp_stream := [(5, (False, 3))]\<rparr>)
   \<and> stream_req ((new_EWB_Engine True)\<lparr>dcp_stream := [(5, (False, 3))]\<rparr>) 5 0 7
       = ((Returned ENGINE_SUCCESS, 7), (new_EWB_Engine True)\<lparr>dcp_stream := [(5, (True, 3))]\<rparr>)
   \<and> fst (steps ENGINE_SUCCESS ((new_EWB_Engine True)\<lparr>dcp_stream := [(5, (True, 3))]\<rparr>) 5 4)
       = [(Some dcp_mutation, Returned ENGINE_SUCCESS), (Some dcp_mutation, Returned ENGINE_SUCCESS),
          (Some dcp_mutation, Returned ENGINE_SUCCESS), (None, Returned ENGINE_EWOULDBLOCK)]"
proof -
  have a: "take 12 ''ewb_internal:3'' = ''ewb_internal''" by simp
  have b: "rfind_colon ''ewb_internal:3'' = Some 12" by (simp add: rfind_colon_def)
  have c: "stoull (drop (12 + 1) ''ewb_internal:3'') = Inr 3"
    by (simp add: stoull_def isspace_def isdigit_def digits_value_def)
  have s: "(new_EWB_Engine True)\<lparr>dcp_stream :=
              AList.update 5 (False, 3) (dcp_stream (new_EWB_Engine True))\<rparr>
           = (new_EWB_Engine True)\<lparr>dcp_stream := [(5, (False, 3))]\<rparr>"
    by (simp add: new_EWB_Engine_def)
  have s': "((new_EWB_Engine True)\<lparr>dcp_stream := [(5, (False, 3))]\<rparr>)\<lparr>dcp_stream :=
              AList.update 5 (True, 3)
                (dcp_stream ((new_EWB_Engine True)\<lparr>dcp_stream := [(5, (False, 3))]\<rparr>))\<rparr>
           = (new_EWB_Engine True)\<lparr>dcp_stream := [(5, (True, 3))]\<rparr>"
    by (simp add: new_EWB_Engine_def)
  have n: "unat (3::64 word) = 3" by simp
  have r: "replicate (min (unat (3::64 word)) 4) x @ replicate (4 - unat (3::64 word)) y
             = [x, x, x, y]" for x y :: 'a
    unfolding n by (simp add: numeral_3_eq_3 numeral_Bit0 )
  have z: "(0::64 word) \<noteq> 1" by simp
  note t = synthetic_stream_behaviour[OF a b c,
      where eng = "new_EWB_Engine True" and c = 5 and rb = 7 and ret = ENGINE_SUCCESS
        and start = 0 and k = 4,
      unfolded Let_def s s' r]
  from t a b c z show ?thesis by blast
qed

end
